theory Spec2Isabelle
  imports Main "HOL-Library.AList"
begin

unbundle bit_operations_syntax

section \<open>Result codes of the config set\<close>

text \<open>
  Modelled from the spec: the header config/set.h that declares the \<open>CSR_\<close> result
  codes is not among the sources. Section 7 of the spec names the classifications; a
  result is a C \<open>int\<close> whose low four bits are the base result (\<open>CSR_RESULT\<close>) and whose
  higher bits are flags that qualify it. \<open>InvalidValue\<close> is \<open>CSR_ERR_INVALID\<close>,
  \<open>InternalError\<close> is \<open>CSR_ERR_CODE\<close>, \<open>Success\<cdot>NoChange\<close> and \<open>Success\<cdot>Empty\<close> are
  \<open>CSR_SUCCESS\<close> with the flag \<open>CSR_SUC_NO_CHANGE\<close> or \<open>CSR_SUC_EMPTY\<close>, and
  \<open>ValidatorRejected\<close> is a failing result that carries the flag \<open>CSR_INV_VALIDATOR\<close>.
  The numbers are those of the upstream header. What the proofs need of them is that
  \<open>CSR_SUCCESS\<close> is 0, that the error codes are non-zero and inside the mask, and that
  the flags lie outside the mask.
\<close>

definition CSR_SUCCESS :: int where "CSR_SUCCESS = 0"
definition CSR_ERR_CODE :: int where "CSR_ERR_CODE = 1"
definition CSR_ERR_UNKNOWN :: int where "CSR_ERR_UNKNOWN = 2"
definition CSR_ERR_INVALID :: int where "CSR_ERR_INVALID = 3"

definition CSR_SUC_EMPTY :: int where "CSR_SUC_EMPTY = 32"
definition CSR_SUC_NO_CHANGE :: int where "CSR_SUC_NO_CHANGE = 128"
definition CSR_INV_TYPE :: int where "CSR_INV_TYPE = 16"
definition CSR_INV_VALIDATOR :: int where "CSR_INV_VALIDATOR = 32"

definition CSR_RESULT_MASK :: int where "CSR_RESULT_MASK = 15"

definition CSR_RESULT :: "int \<Rightarrow> int" where
  "CSR_RESULT x = x AND CSR_RESULT_MASK"

text \<open>The classifications of section 7 that the regex codec produces, as predicates on
  the returned \<open>int\<close>.\<close>

definition is_validator_rejected :: "int \<Rightarrow> bool" where
  "is_validator_rejected rc \<longleftrightarrow>
     CSR_RESULT rc \<noteq> CSR_SUCCESS \<and> rc AND CSR_INV_VALIDATOR \<noteq> 0"

definition is_success_empty :: "int \<Rightarrow> bool" where
  "is_success_empty rc \<longleftrightarrow> CSR_RESULT rc = CSR_SUCCESS \<and> rc AND CSR_SUC_EMPTY \<noteq> 0"

section \<open>Flags, buffers and the regex engine\<close>

text \<open>
  Modelled from the spec: config/types.h and config/regex2.h, which give the \<open>DT_\<close>
  flags their bit values, are not among the sources. The spec's \<open>flags: bitset\<close> is a
  set of named flags: \<open>x & F\<close> is membership, \<open>x | F\<close> is insertion and \<open>0\<close> is the
  empty set. The compile flags of \<open><regex.h>\<close> are treated the same way.
\<close>

datatype dt_flag = DT_REGEX_MATCH_CASE | DT_REGEX_ALLOW_NOT | DT_REGEX_NOSUB | DT_INITIAL_SET

datatype cflag = REG_ICASE | REG_NOSUB

text \<open>\<open>struct Buffer\<close>: the text it holds and the size of its allocation. A
  \<open>struct Buffer *\<close> that may be \<open>NULL\<close> is a \<open>Buffer option\<close>.\<close>

record Buffer =
  data :: string
  dsize :: nat

text \<open>
  The regex engine is the C library's. \<open>REGCOMP\<close> gives the return code of compiling a
  text under compile flags (0 on success), \<open>regerror\<close> the diagnostic for a return code.
\<close>

record engine =
  REGCOMP :: "string \<Rightarrow> cflag set \<Rightarrow> int"
  regerror :: "int \<Rightarrow> string"

text \<open>A \<open>regex_t\<close> is opaque in C; the model keeps what it was compiled from: the text
  and flags handed to \<open>REGCOMP\<close> and the return code of that call.\<close>

record regex_t =
  re_text :: string
  re_cflags :: "cflag set"
  re_rc :: int

text \<open>\<open>struct Regex\<close> (mutt/regex3.h): the printable pattern, the compiled expression
  and the negation flag.\<close>

record Regex =
  pattern :: "string option"
  regex :: "regex_t option"
  not :: bool

section \<open>The heap of Regex objects\<close>

text \<open>
  A \<open>struct Regex *\<close> is an address or \<open>NULL\<close> (\<open>None\<close>). The heap lists the live
  objects. \<open>mutt_mem_calloc\<close> returns an address that is not live; \<open>FREE\<close> removes the
  object. The pattern text and the \<open>regex_t\<close> are owned by their \<open>Regex\<close> and never
  shared, so they live inside its record.
\<close>

type_synonym addr = nat
type_synonym heap = "(addr \<times> Regex) list"

definition mutt_mem_calloc :: "heap \<Rightarrow> addr" where
  "mutt_mem_calloc h = Suc (foldr max (map fst h) 0)"

definition live :: "heap \<Rightarrow> addr option \<Rightarrow> bool" where
  "live h p = (case p of None \<Rightarrow> False | Some a \<Rightarrow> map_of h a \<noteq> None)"

text \<open>Reading a field through a pointer. Reading through a dangling pointer is
  undefined in C; the model reads \<open>NULL\<close> and \<open>false\<close> there.\<close>

definition pattern_at :: "heap \<Rightarrow> addr option \<Rightarrow> string option" where
  "pattern_at h p =
     (case p of None \<Rightarrow> None
      | Some a \<Rightarrow> (case map_of h a of None \<Rightarrow> None | Some r \<Rightarrow> pattern r))"

definition not_at :: "heap \<Rightarrow> addr option \<Rightarrow> bool" where
  "not_at h p =
     (case p of None \<Rightarrow> False
      | Some a \<Rightarrow> (case map_of h a of None \<Rightarrow> False | Some r \<Rightarrow> not r))"

text \<open>\<open>regex_free(struct Regex **r)\<close>: nothing for \<open>NULL\<close>; otherwise the object is
  released and the pointer set to \<open>NULL\<close>. The result is the heap and the new \<open>*r\<close>.\<close>

definition regex_free :: "heap \<Rightarrow> addr option \<Rightarrow> heap \<times> addr option" where
  "regex_free h r =
     (case r of None \<Rightarrow> (h, None)
      | Some a \<Rightarrow> (AList.delete a h, None))"

section \<open>Strings\<close>

text \<open>\<open>strcmp\<close> on texts; only the sign of the result is specified in C.\<close>

fun strcmp :: "string \<Rightarrow> string \<Rightarrow> int" where
  "strcmp [] [] = 0"
| "strcmp [] (y # ys) = - 1"
| "strcmp (x # xs) [] = 1"
| "strcmp (x # xs) (y # ys) =
     (if x = y then strcmp xs ys
      else if (of_char x :: nat) < of_char y then - 1 else 1)"

text \<open>\<open>NONULL\<close> and \<open>mutt_str_strcmp\<close> (mutt/string.c): a \<open>NULL\<close> text compares as the
  empty text.\<close>

definition NONULL :: "string option \<Rightarrow> string" where
  "NONULL s = (case s of None \<Rightarrow> [] | Some t \<Rightarrow> t)"

definition mutt_str_strcmp :: "string option \<Rightarrow> string option \<Rightarrow> int" where
  "mutt_str_strcmp a b = strcmp (NONULL a) (NONULL b)"

text \<open>
  Modelled from the spec: \<open>mutt_mb_is_lower\<close> (mutt/mbyte.c) is not among the sources.
  Section 4.3: the text contains no uppercase letters. Letters are those of the C locale.
\<close>

definition isupper :: "char \<Rightarrow> bool" where
  "isupper c \<longleftrightarrow> 65 \<le> (of_char c :: nat) \<and> (of_char c :: nat) \<le> 90"

definition mutt_mb_is_lower :: "string \<Rightarrow> bool" where
  "mutt_mb_is_lower s = list_all (\<lambda>c. \<not> isupper c) s"

text \<open>
  Modelled from the spec: \<open>mutt_buffer_addstr\<close> (mutt/buffer.c) is not among the
  sources. It appends the text to the buffer, which grows to hold it and its
  terminator.
\<close>

definition mutt_buffer_addstr :: "Buffer \<Rightarrow> string \<Rightarrow> Buffer" where
  "mutt_buffer_addstr b t =
     b\<lparr>data := data b @ t, dsize := max (dsize b) (Suc (length (data b @ t)))\<rparr>"

text \<open>\<open>regerror(rc, preg, err->data, err->dsize)\<close> writes the diagnostic, cut to the
  size of the buffer with its terminator; a buffer of size 0 is left alone.\<close>

definition write_regerror :: "engine \<Rightarrow> int \<Rightarrow> Buffer \<Rightarrow> Buffer" where
  "write_regerror E rc b =
     (if dsize b = 0 then b else b\<lparr>data := take (dsize b - 1) (regerror E rc)\<rparr>)"

section \<open>regex_create\<close>

text \<open>
  \<open>regex_create(str, flags, err)\<close> returns the new object's address or \<open>NULL\<close>, with
  the heap and the error buffer after the call.
\<close>

definition regex_create ::
  "engine \<Rightarrow> heap \<Rightarrow> string option \<Rightarrow> dt_flag set \<Rightarrow> Buffer option
     \<Rightarrow> addr option \<times> heap \<times> Buffer option" where
  "regex_create E h str flags err =
     (case str of
        None \<Rightarrow> (None, h, err)
      | Some s \<Rightarrow>
          let reg = mutt_mem_calloc h;
              rflags1 = (if DT_REGEX_MATCH_CASE \<notin> flags \<and> mutt_mb_is_lower s
                         then {REG_ICASE} else {});
              rflags = (if DT_REGEX_NOSUB \<in> flags then insert REG_NOSUB rflags1 else rflags1);
              neg = (DT_REGEX_ALLOW_NOT \<in> flags \<and> s \<noteq> [] \<and> hd s = CHR ''!'');
              s' = (if neg then tl s else s);
              rc = REGCOMP E s' rflags;
              h' = (reg, \<lparr>pattern = Some s,
                          regex = Some \<lparr>re_text = s', re_cflags = rflags, re_rc = rc\<rparr>,
                          not = neg\<rparr>) # h
          in if rc \<noteq> 0 \<and> err \<noteq> None
             then (None, fst (regex_free h' (Some reg)), map_option (write_regerror E rc) err)
             else (Some reg, h', err))"

section \<open>The regex codec\<close>

text \<open>
  A validator receives the candidate as an \<open>intptr_t\<close> and the error buffer; it may
  read the candidate and write a message, and returns a result code. The config set
  and the definition handed to it are fixed for a given item, so they are part of the
  function. \<open>struct ConfigDef\<close>: the type flags, the initial value (the text, for a
  regex) and the optional validator.
\<close>

type_synonym validator = "heap \<Rightarrow> addr option \<Rightarrow> Buffer option \<Rightarrow> int \<times> Buffer option"

record ConfigDef =
  type :: "dt_flag set"
  initial :: "string option"
  validator :: "validator option"

text \<open>
  The state the codec works on: the heap, the variable that \<open>var\<close> points to (a
  \<open>struct Regex *\<close>), the definition that \<open>cdef\<close> points to, the caller's error buffer
  (\<open>None\<close> when \<open>err\<close> is \<open>NULL\<close>) and the calls of the validator so far, oldest first:
  the candidate it was given and the code it returned. The pointer arguments \<open>cs\<close>,
  \<open>var\<close> and \<open>cdef\<close> are booleans: true when not \<open>NULL\<close>.
\<close>

record state =
  heap :: heap
  variable :: "addr option"
  def :: ConfigDef
  err :: "Buffer option"
  validated :: "(addr option \<times> int) list"

definition call_validator :: "validator \<Rightarrow> addr option \<Rightarrow> state \<Rightarrow> int \<times> state" where
  "call_validator v val s =
     (let (rc, e) = v (heap s) val (err s)
      in (rc, s\<lparr>err := e, validated := validated s @ [(val, rc)]\<rparr>))"

definition regex_destroy :: "bool \<Rightarrow> bool \<Rightarrow> bool \<Rightarrow> state \<Rightarrow> state" where
  "regex_destroy cs var cdef s =
     (if \<not> cs \<or> \<not> var \<or> \<not> cdef then s
      else if variable s = None then s
      else let (h, r) = regex_free (heap s) (variable s)
           in s\<lparr>heap := h, variable := r\<rparr>)"

definition regex_string_set ::
  "engine \<Rightarrow> bool \<Rightarrow> bool \<Rightarrow> bool \<Rightarrow> string option \<Rightarrow> state \<Rightarrow> int \<times> state" where
  "regex_string_set E cs var cdef value0 s =
     (if \<not> cs \<or> \<not> cdef then (CSR_ERR_CODE, s)
      else
        let value = (if value0 = Some [] then None else value0) in
        if var then
          let curval = variable s in
          if curval \<noteq> None \<and> mutt_str_strcmp value (pattern_at (heap s) curval) = 0
          then (CSR_SUCCESS OR CSR_SUC_NO_CHANGE, s)
          else
            let (r, h1, e1) =
                  (if value \<noteq> None then regex_create E (heap s) value (type (def s)) (err s)
                   else (None, heap s, err s));
                s1 = s\<lparr>heap := h1, err := e1\<rparr>
            in if value \<noteq> None \<and> r = None then (CSR_ERR_INVALID, s1)
               else
                 let (rc, s2) = (case validator (def s) of
                                   None \<Rightarrow> (CSR_SUCCESS, s1)
                                 | Some v \<Rightarrow> call_validator v r s1)
                 in if validator (def s) \<noteq> None \<and> CSR_RESULT rc \<noteq> CSR_SUCCESS
                    then (rc OR CSR_INV_VALIDATOR,
                          s2\<lparr>heap := fst (regex_free (heap s2) r)\<rparr>)
                    else
                      let s3 = (regex_destroy cs var cdef s2)\<lparr>variable := r\<rparr>
                      in (if r = None then rc OR CSR_SUC_EMPTY else rc, s3)
        else
          (CSR_SUCCESS,
           s\<lparr>def := (def s)\<lparr>type := insert DT_INITIAL_SET (type (def s)),
                              initial := value\<rparr>\<rparr>))"

definition regex_string_get ::
  "bool \<Rightarrow> bool \<Rightarrow> bool \<Rightarrow> Buffer \<Rightarrow> state \<Rightarrow> int \<times> Buffer" where
  "regex_string_get cs var cdef result s =
     (if \<not> cs \<or> \<not> cdef then (CSR_ERR_CODE, result)
      else
        let str = (if var
                   then (if variable s \<noteq> None then pattern_at (heap s) (variable s) else None)
                   else initial (def s))
        in case str of
             None \<Rightarrow> (CSR_SUCCESS OR CSR_SUC_EMPTY, result)
           | Some t \<Rightarrow> (CSR_SUCCESS, mutt_buffer_addstr result t))"

definition regex_native_set ::
  "engine \<Rightarrow> bool \<Rightarrow> bool \<Rightarrow> bool \<Rightarrow> addr option \<Rightarrow> state \<Rightarrow> int \<times> state" where
  "regex_native_set E cs var cdef val s =
     (if \<not> cs \<or> \<not> var \<or> \<not> cdef then (CSR_ERR_CODE, s)
      else
        let (vrc, s1) = (case validator (def s) of
                           None \<Rightarrow> (CSR_SUCCESS, s)
                         | Some v \<Rightarrow> call_validator v val s)
        in if validator (def s) \<noteq> None \<and> CSR_RESULT vrc \<noteq> CSR_SUCCESS
           then (vrc OR CSR_INV_VALIDATOR, s1)
           else
             let orig = val in
             if orig \<noteq> None \<and> pattern_at (heap s1) orig \<noteq> None
             then
               let flags = (if not_at (heap s1) orig then {DT_REGEX_ALLOW_NOT} else {});
                   (r, h1, e1) = regex_create E (heap s1) (pattern_at (heap s1) orig) flags (err s1);
                   rc = (if r = None then CSR_ERR_INVALID else CSR_SUCCESS);
                   s2 = s1\<lparr>heap := h1, err := e1\<rparr>
               in if CSR_RESULT rc = CSR_SUCCESS
                  then (rc, s2\<lparr>heap := fst (regex_free h1 (variable s2)), variable := r\<rparr>)
                  else (rc, s2)
             else
               (CSR_SUCCESS OR CSR_SUC_EMPTY,
                s1\<lparr>heap := fst (regex_free (heap s1) (variable s1)), variable := None\<rparr>))"

section \<open>The quad codec\<close>

text \<open>
  Modelled from the spec: config/quad.c is not among the sources (only its test is).
  Section 3: a quad is one of four states No, Yes, AskNo, AskYes, stored as a small
  integer 0 to 3. Section 4.4: toggle follows the fixed table No to Yes, Yes to No,
  AskNo to AskYes, AskYes to AskNo; it fails with \<open>InternalError\<close> when the config set
  or the item handle is absent or the item is not quad-typed, and with \<open>InvalidValue\<close>
  on a stored value out of range. Sections 4.1 and 8: string-set needs one of the
  four literal tokens (the empty text is not one), returns \<open>Success\<cdot>NoChange\<close> when
  the parsed value is the stored one, runs the validator, then commits; without live
  storage the value is recorded as the definition's initial value.
\<close>

definition MUTT_NO :: int where "MUTT_NO = 0"
definition MUTT_YES :: int where "MUTT_YES = 1"
definition MUTT_ASKNO :: int where "MUTT_ASKNO = 2"
definition MUTT_ASKYES :: int where "MUTT_ASKYES = 3"

definition QuadValues :: "(string \<times> int) list" where
  "QuadValues = [(''no'', MUTT_NO), (''yes'', MUTT_YES),
                 (''ask-no'', MUTT_ASKNO), (''ask-yes'', MUTT_ASKYES)]"

definition quad_toggle_table :: "(int \<times> int) list" where
  "quad_toggle_table = [(MUTT_NO, MUTT_YES), (MUTT_YES, MUTT_NO),
                        (MUTT_ASKNO, MUTT_ASKYES), (MUTT_ASKYES, MUTT_ASKNO)]"

definition quad_toggle :: "int \<Rightarrow> int option" where
  "quad_toggle opt = map_of quad_toggle_table opt"

record quad_item =
  quad_var :: int
  quad_initial :: int
  quad_validator :: "(int \<Rightarrow> int) option"

text \<open>\<open>quad_he_toggle(cs, he, err)\<close>; \<open>is_quad\<close> tells whether the item's definition is
  quad-typed.\<close>

definition quad_he_toggle :: "bool \<Rightarrow> bool \<Rightarrow> bool \<Rightarrow> quad_item \<Rightarrow> int \<times> quad_item" where
  "quad_he_toggle cs he is_quad q =
     (if \<not> cs \<or> \<not> he then (CSR_ERR_CODE, q)
      else if \<not> is_quad then (CSR_ERR_CODE, q)
      else case quad_toggle (quad_var q) of
             None \<Rightarrow> (CSR_ERR_INVALID, q)
           | Some v \<Rightarrow> (CSR_SUCCESS, q\<lparr>quad_var := v\<rparr>))"

definition quad_string_set ::
  "bool \<Rightarrow> bool \<Rightarrow> bool \<Rightarrow> string option \<Rightarrow> quad_item \<Rightarrow> int \<times> quad_item" where
  "quad_string_set cs var cdef val q =
     (if \<not> cs \<or> \<not> cdef then (CSR_ERR_CODE, q)
      else case map_of QuadValues (NONULL val) of
             None \<Rightarrow> (CSR_ERR_INVALID, q)
           | Some num \<Rightarrow>
               if var then
                 if num = quad_var q then (CSR_SUCCESS OR CSR_SUC_NO_CHANGE, q)
                 else (case quad_validator q of
                         None \<Rightarrow> (CSR_SUCCESS, q\<lparr>quad_var := num\<rparr>)
                       | Some v \<Rightarrow>
                           if CSR_RESULT (v num) \<noteq> CSR_SUCCESS
                           then (v num OR CSR_INV_VALIDATOR, q)
                           else (v num, q\<lparr>quad_var := num\<rparr>))
               else (CSR_SUCCESS, q\<lparr>quad_initial := num\<rparr>))"

text \<open>The stored value after \<open>n\<close> toggles in a row.\<close>

fun toggles :: "nat \<Rightarrow> quad_item \<Rightarrow> quad_item" where
  "toggles 0 q = q"
| "toggles (Suc n) q = toggles n (snd (quad_he_toggle True True True q))"

definition quad_in_range :: "int \<Rightarrow> bool" where
  "quad_in_range v \<longleftrightarrow> MUTT_NO \<le> v \<and> v \<le> MUTT_ASKYES"

section \<open>Well-formed states\<close>

text \<open>The variable of a config item is \<open>NULL\<close> or points to a live object.\<close>

definition storage_ok :: "state \<Rightarrow> bool" where
  "storage_ok s \<longleftrightarrow> (variable s = None \<or> live (heap s) (variable s))"

section \<open>The regex codec as section 4.3 describes it\<close>

text \<open>
  Section 4.3 in its own words, to compare \<open>regex_create\<close> with: the value is negated
  when the definition permits negation and the text begins with \<open>!\<close>, which is then
  stripped; the pattern is compiled case-insensitively when the definition does not
  force case sensitivity and the remaining text has no uppercase letter; the
  no-submatch mode is used when the definition asks for it.
\<close>

definition spec_negated :: "dt_flag set \<Rightarrow> string \<Rightarrow> bool" where
  "spec_negated flags s \<longleftrightarrow> DT_REGEX_ALLOW_NOT \<in> flags \<and> take 1 s = ''!''"

definition spec_remaining :: "dt_flag set \<Rightarrow> string \<Rightarrow> string" where
  "spec_remaining flags s = (if spec_negated flags s then drop 1 s else s)"

definition spec_icase :: "dt_flag set \<Rightarrow> string \<Rightarrow> bool" where
  "spec_icase flags s \<longleftrightarrow>
     DT_REGEX_MATCH_CASE \<notin> flags \<and> (\<forall>c \<in> set (spec_remaining flags s). \<not> isupper c)"

definition spec_cflags :: "dt_flag set \<Rightarrow> string \<Rightarrow> cflag set" where
  "spec_cflags flags s =
     (if spec_icase flags s then {REG_ICASE} else {})
     \<union> (if DT_REGEX_NOSUB \<in> flags then {REG_NOSUB} else {})"

definition spec_regex :: "engine \<Rightarrow> dt_flag set \<Rightarrow> string \<Rightarrow> Regex" where
  "spec_regex E flags s =
     \<lparr>pattern = Some s,
      regex = Some \<lparr>re_text = spec_remaining flags s, re_cflags = spec_cflags flags s,
                    re_rc = REGCOMP E (spec_remaining flags s) (spec_cflags flags s)\<rparr>,
      not = spec_negated flags s\<rparr>"

section \<open>Concrete items for the examples\<close>

text \<open>
  Two validators in the roles that \<open>validator_fail\<close> and \<open>validator_succeed\<close> play in
  test/config/quad.c: one always fails with \<open>CSR_ERR_INVALID\<close> and leaves a message,
  one always succeeds. An engine that rejects
  the unbalanced bracket and accepts every other text, and a regex item that permits
  negation, with empty storage and a caller's error buffer of 256 bytes.
\<close>

definition validator_fail :: validator where
  "validator_fail h c e =
     (CSR_ERR_INVALID, map_option (\<lambda>b. b\<lparr>data := ''validator_fail''\<rparr>) e)"

definition validator_succeed :: validator where
  "validator_succeed h c e = (CSR_SUCCESS, e)"

definition E0 :: engine where
  "E0 = \<lparr>REGCOMP = (\<lambda>t f. if t = ''['' then 7 else 0),
          regerror = (\<lambda>rc. ''brackets ([ ]) not balanced'')\<rparr>"

definition state0 :: "validator option \<Rightarrow> state" where
  "state0 v = \<lparr>heap = [], variable = None,
               def = \<lparr>type = {DT_REGEX_ALLOW_NOT}, initial = None, validator = v\<rparr>,
               err = Some \<lparr>data = [], dsize = 256\<rparr>, validated = []\<rparr>"

text \<open>The same item holding the pattern \<open>ab\<close>, called without an error buffer.\<close>

definition state1 :: state where
  "state1 = \<lparr>heap = [(1, \<lparr>pattern = Some ''ab'',
                           regex = Some \<lparr>re_text = ''ab'', re_cflags = {REG_ICASE}, re_rc = 0\<rparr>,
                           not = False\<rparr>)],
             variable = Some 1,
             def = \<lparr>type = {DT_REGEX_ALLOW_NOT}, initial = None, validator = None\<rparr>,
             err = None, validated = []\<rparr>"

text \<open>An item whose definition forces case sensitivity and asks for the no-submatch
  mode, with a validator that accepts, empty storage and no error buffer; the heap
  holds a caller's value for the pattern \<open>abc\<close> at address 5.\<close>

definition state2 :: state where
  "state2 = \<lparr>heap = [(5, \<lparr>pattern = Some ''abc'',
                           regex = Some \<lparr>re_text = ''abc'', re_cflags = {}, re_rc = 0\<rparr>,
                           not = False\<rparr>)],
             variable = None,
             def = \<lparr>type = {DT_REGEX_MATCH_CASE, DT_REGEX_NOSUB}, initial = None,
                    validator = Some validator_succeed\<rparr>,
             err = None, validated = []\<rparr>"

text \<open>The compile flags of the matcher that the variable points to.\<close>

definition stored_cflags :: "state \<Rightarrow> cflag set option" where
  "stored_cflags s =
     (case variable s of
        None \<Rightarrow> None
      | Some a \<Rightarrow> (case map_of (heap s) a of
                    None \<Rightarrow> None
                  | Some R \<Rightarrow> map_option re_cflags (regex R)))"

text \<open>The item holding \<open>ab\<close> with the validator that always fails and an error buffer;
  the heap also holds a caller's value for the pattern \<open>abc\<close> at address 5.\<close>

definition state3 :: state where
  "state3 = \<lparr>heap = [(1, \<lparr>pattern = Some ''ab'',
                           regex = Some \<lparr>re_text = ''ab'', re_cflags = {REG_ICASE}, re_rc = 0\<rparr>,
                           not = False\<rparr>),
                     (5, \<lparr>pattern = Some ''abc'',
                           regex = Some \<lparr>re_text = ''abc'', re_cflags = {REG_ICASE}, re_rc = 0\<rparr>,
                           not = False\<rparr>)],
             variable = Some 1,
             def = \<lparr>type = {DT_REGEX_ALLOW_NOT}, initial = None,
                    validator = Some validator_fail\<rparr>,
             err = Some \<lparr>data = [], dsize = 256\<rparr>, validated = []\<rparr>"

text \<open>An item holding \<open>ab\<close> whose validator accepts; the heap also holds a caller's
  negated value, with the text \<open>!Abc\<close>, at address 5.\<close>

definition state4 :: state where
  "state4 = \<lparr>heap = [(1, \<lparr>pattern = Some ''ab'',
                           regex = Some \<lparr>re_text = ''ab'', re_cflags = {}, re_rc = 0\<rparr>,
                           not = False\<rparr>),
                     (5, \<lparr>pattern = Some ''!Abc'',
                           regex = Some \<lparr>re_text = ''Abc'', re_cflags = {}, re_rc = 0\<rparr>,
                           not = True\<rparr>)],
             variable = Some 1,
             def = \<lparr>type = {DT_REGEX_MATCH_CASE, DT_REGEX_ALLOW_NOT}, initial = None,
                    validator = Some validator_succeed\<rparr>,
             err = Some \<lparr>data = [], dsize = 256\<rparr>, validated = []\<rparr>"

section \<open>Facts about the heap\<close>

lemma foldr_max_ge: "k \<in> set ks \<Longrightarrow> k \<le> foldr max ks (0::nat)"
  by (induction ks) auto

lemma mutt_mem_calloc_fresh: "mutt_mem_calloc h \<notin> fst ` set h"
proof
  assume "mutt_mem_calloc h \<in> fst ` set h"
  then have "mutt_mem_calloc h \<in> set (map fst h)" by simp
  then have "mutt_mem_calloc h \<le> foldr max (map fst h) 0" by (rule foldr_max_ge)
  then show False by (simp add: mutt_mem_calloc_def)
qed

lemma mutt_mem_calloc_fresh_pair: "(mutt_mem_calloc h, b) \<notin> set h"
  using mutt_mem_calloc_fresh[of h] by force

lemma map_of_new: "map_of h (mutt_mem_calloc h) = None"
  using mutt_mem_calloc_fresh[of h] by (simp add: map_of_eq_None_iff)

lemma not_live_new: "\<not> live h (Some (mutt_mem_calloc h))"
  using mutt_mem_calloc_fresh[of h]
  by (auto simp: live_def map_of_eq_None_iff)

lemma live_not_new: "live h (Some a) \<Longrightarrow> a \<noteq> mutt_mem_calloc h"
  using not_live_new[of h] by auto

lemma regex_free_new:
  "fst (regex_free ((mutt_mem_calloc h, R) # h) (Some (mutt_mem_calloc h))) = h"
  by (simp add: regex_free_def mutt_mem_calloc_fresh)

lemma map_of_delete_other:
  "a \<noteq> b \<Longrightarrow> map_of (AList.delete a h) b = map_of h b"
  by (simp add: delete_conv')

lemma pattern_at_new:
  "pattern_at ((mutt_mem_calloc h, R) # h) (Some (mutt_mem_calloc h)) = pattern R"
  by (simp add: pattern_at_def)

lemma regex_destroy_fields [simp]:
  "validated (regex_destroy cs var cdef s) = validated s"
  "def (regex_destroy cs var cdef s) = def s"
  "err (regex_destroy cs var cdef s) = err s"
  by (simp_all add: regex_destroy_def regex_free_def split: option.splits)

section \<open>Facts about the result codes\<close>

lemmas csr_defs = CSR_SUCCESS_def CSR_ERR_CODE_def CSR_ERR_INVALID_def CSR_SUC_EMPTY_def
  CSR_SUC_NO_CHANGE_def CSR_INV_VALIDATOR_def CSR_RESULT_def CSR_RESULT_MASK_def

lemma CSR_RESULT_consts [simp]:
  "CSR_RESULT CSR_ERR_CODE \<noteq> CSR_SUCCESS"
  "CSR_RESULT CSR_ERR_INVALID \<noteq> CSR_SUCCESS"
  "CSR_RESULT CSR_SUCCESS = CSR_SUCCESS"
  "CSR_RESULT (CSR_SUCCESS OR CSR_SUC_NO_CHANGE) = CSR_SUCCESS"
  "CSR_RESULT (CSR_SUCCESS OR CSR_SUC_EMPTY) = CSR_SUCCESS"
  by (simp_all add: csr_defs)

lemma CSR_RESULT_or_validator: "CSR_RESULT (rc OR CSR_INV_VALIDATOR) = CSR_RESULT rc"
proof -
  have "(rc OR 32) AND 15 = (rc AND 15) OR (32 AND (15::int))"
    by (rule bit.conj_disj_distrib2)
  also have "(32::int) AND 15 = 0" by simp
  finally show ?thesis by (simp add: CSR_RESULT_def CSR_RESULT_MASK_def CSR_INV_VALIDATOR_def)
qed

lemma CSR_RESULT_or_empty: "CSR_RESULT (rc OR CSR_SUC_EMPTY) = CSR_RESULT rc"
  using CSR_RESULT_or_validator[of rc] by (simp add: CSR_SUC_EMPTY_def CSR_INV_VALIDATOR_def)

lemma or_and_same: "((a::int) OR b) AND b = b"
  by (rule bit_eqI) (auto simp: bit_and_iff bit_or_iff)

lemma or_validator_flag: "(rc OR CSR_INV_VALIDATOR) AND CSR_INV_VALIDATOR = CSR_INV_VALIDATOR"
  by (rule or_and_same)

lemma or_validator_not_invalid: "rc OR CSR_INV_VALIDATOR \<noteq> CSR_ERR_INVALID"
proof
  assume "rc OR CSR_INV_VALIDATOR = CSR_ERR_INVALID"
  then have "bit (rc OR 32) 5 = bit (3::int) 5"
    by (simp add: CSR_INV_VALIDATOR_def CSR_ERR_INVALID_def)
  then show False by (simp add: bit_or_iff)
qed

lemma rejected_code:
  "CSR_RESULT vrc \<noteq> CSR_SUCCESS \<Longrightarrow> is_validator_rejected (vrc OR CSR_INV_VALIDATOR)"
  unfolding is_validator_rejected_def CSR_RESULT_or_validator or_validator_flag
  by (simp add: CSR_INV_VALIDATOR_def)

lemma success_empty_code:
  "CSR_RESULT vrc = CSR_SUCCESS \<Longrightarrow> is_success_empty (vrc OR CSR_SUC_EMPTY)"
  unfolding is_success_empty_def CSR_RESULT_or_empty or_and_same
  by (simp add: CSR_SUC_EMPTY_def)

section \<open>Facts about texts\<close>

lemma strcmp_eq0: "strcmp a b = 0 \<longleftrightarrow> a = b"
  by (induction a b rule: strcmp.induct) auto

lemma mutt_str_strcmp_eq0: "mutt_str_strcmp a b = 0 \<longleftrightarrow> NONULL a = NONULL b"
  by (simp add: mutt_str_strcmp_def strcmp_eq0)

lemma begins_bang: "(s \<noteq> [] \<and> hd s = CHR ''!'') \<longleftrightarrow> take 1 s = ''!''"
  by (cases s) auto

lemma lower_after_bang:
  "take 1 s = ''!'' \<Longrightarrow> mutt_mb_is_lower s = mutt_mb_is_lower (drop 1 s)"
  by (cases s) (auto simp: mutt_mb_is_lower_def isupper_def)

lemma mutt_mb_is_lower_remaining:
  "mutt_mb_is_lower s \<longleftrightarrow> (\<forall>c \<in> set (spec_remaining flags s). \<not> isupper c)"
proof (cases "spec_negated flags s")
  case True
  then have "take 1 s = ''!''" by (simp add: spec_negated_def)
  from lower_after_bang[OF this] True show ?thesis
    by (simp add: spec_remaining_def mutt_mb_is_lower_def list_all_iff)
next
  case False
  then show ?thesis by (simp add: spec_remaining_def mutt_mb_is_lower_def list_all_iff)
qed

section \<open>What regex_create returns\<close>

lemma regex_create_text:
  "regex_create E h (Some s) flags er =
     (if REGCOMP E (spec_remaining flags s) (spec_cflags flags s) \<noteq> 0 \<and> er \<noteq> None
      then (None, h,
            map_option (write_regerror E (REGCOMP E (spec_remaining flags s) (spec_cflags flags s))) er)
      else (Some (mutt_mem_calloc h), (mutt_mem_calloc h, spec_regex E flags s) # h, er))"
proof -
  have neg: "(DT_REGEX_ALLOW_NOT \<in> flags \<and> s \<noteq> [] \<and> hd s = CHR ''!'') = spec_negated flags s"
    using begins_bang[of s] by (auto simp: spec_negated_def)
  have rem: "(if spec_negated flags s then tl s else s) = spec_remaining flags s"
    by (simp add: spec_remaining_def drop_Suc)
  have ic: "(DT_REGEX_MATCH_CASE \<notin> flags \<and> mutt_mb_is_lower s) = spec_icase flags s"
    using mutt_mb_is_lower_remaining[of s flags] by (simp add: spec_icase_def)
  have rf: "(if DT_REGEX_NOSUB \<in> flags
             then insert REG_NOSUB (if spec_icase flags s then {REG_ICASE} else {})
             else (if spec_icase flags s then {REG_ICASE} else {})) = spec_cflags flags s"
    by (auto simp: spec_cflags_def)
  show ?thesis
    unfolding regex_create_def option.case Let_def neg rem ic rf
    by (simp add: regex_free_new spec_regex_def)
qed

lemmas codec_eval = regex_string_set_def regex_native_set_def regex_string_get_def
  regex_create_def call_validator_def regex_destroy_def regex_free_def mutt_mem_calloc_def
  pattern_at_def not_at_def live_def mutt_str_strcmp_def NONULL_def mutt_mb_is_lower_def
  isupper_def write_regerror_def mutt_buffer_addstr_def Let_def
  validator_fail_def validator_succeed_def E0_def state0_def

section \<open>The paths of string-set\<close>

lemma string_set_success_args:
  assumes "regex_string_set E cs var cdef value0 s = (rc, s')" and "CSR_RESULT rc = CSR_SUCCESS"
  shows "cs \<and> cdef"
  using assms unfolding regex_string_set_def by (auto split: if_splits)

lemma regex_create_success:
  assumes "regex_create E h (Some t) flags er = (Some a, h1, e1)"
  shows "a = mutt_mem_calloc h \<and> h1 = (a, spec_regex E flags t) # h \<and> e1 = er"
  using assms by (auto simp: regex_create_text split: if_splits)

lemma string_set_rejected:
  assumes "cs" "var" "cdef" and v: "validator (def s) = Some v" and t: "t \<noteq> []"
    and diff: "\<not> (variable s \<noteq> None \<and> t = NONULL (pattern_at (heap s) (variable s)))"
    and cr: "regex_create E (heap s) (Some t) (type (def s)) (err s) = (Some a, h1, e1)"
    and vr: "v h1 (Some a) e1 = (vrc, e2)"
    and rej: "CSR_RESULT vrc \<noteq> CSR_SUCCESS"
  shows "regex_string_set E cs var cdef (Some t) s
           = (vrc OR CSR_INV_VALIDATOR,
              s\<lparr>err := e2, validated := validated s @ [(Some a, vrc)]\<rparr>)"
    and "live h1 (Some a)" and "\<not> live (heap s) (Some a)"
proof -
  note c = regex_create_success[OF cr]
  from c show "live h1 (Some a)" by (simp add: live_def)
  from c show "\<not> live (heap s) (Some a)" by (simp add: not_live_new)
  have free: "fst (regex_free h1 (Some a)) = heap s"
    using c regex_free_new[of "heap s"] by simp
  from assms(1-3) v t diff cr vr rej free
  show "regex_string_set E cs var cdef (Some t) s
           = (vrc OR CSR_INV_VALIDATOR,
              s\<lparr>err := e2, validated := validated s @ [(Some a, vrc)]\<rparr>)"
    by (auto simp: regex_string_set_def Let_def mutt_str_strcmp_eq0 NONULL_def
        call_validator_def)
qed

lemma string_set_empty_rejected_path:
  assumes "cs" "var" "cdef" and v: "validator (def s) = Some v"
    and e: "value0 = None \<or> value0 = Some []"
    and diff: "\<not> (variable s \<noteq> None \<and> NONULL (pattern_at (heap s) (variable s)) = [])"
    and vr: "v (heap s) None (err s) = (vrc, e2)"
    and rej: "CSR_RESULT vrc \<noteq> CSR_SUCCESS"
  shows "regex_string_set E cs var cdef value0 s
           = (vrc OR CSR_INV_VALIDATOR,
              s\<lparr>err := e2, validated := validated s @ [(None, vrc)]\<rparr>)"
  using assms
  by (auto simp: regex_string_set_def Let_def mutt_str_strcmp_eq0 NONULL_def
      call_validator_def regex_free_def)

lemma string_set_get:
  assumes ok: "storage_ok s"
    and set: "regex_string_set E cs var cdef value0 s = (rc, s')"
    and suc: "CSR_RESULT rc = CSR_SUCCESS"
  shows "(if var then pattern_at (heap s') (variable s') else initial (def s')) = Some (NONULL value0)
         \<or> (NONULL value0 = [] \<and>
             (if var then pattern_at (heap s') (variable s') else initial (def s')) = None)"
proof (cases value0)
  case None
  with assms show ?thesis
    unfolding regex_string_set_def
    by (auto simp: Let_def call_validator_def regex_destroy_def regex_free_def
        mutt_str_strcmp_eq0 NONULL_def pattern_at_def CSR_RESULT_or_validator
        split: if_splits option.splits prod.splits)
next
  case (Some t)
  with assms show ?thesis
    unfolding regex_string_set_def
    by (auto simp: Let_def call_validator_def regex_destroy_def regex_free_def
        regex_create_text spec_regex_def storage_ok_def live_def
        mutt_str_strcmp_eq0 NONULL_def pattern_at_def CSR_RESULT_or_validator
        map_of_delete_other mutt_mem_calloc_fresh_pair map_of_new
        split: if_splits option.splits prod.splits
        dest: live_not_new)
qed

lemma string_set_same_text:
  assumes "cs" "var" "cdef" "variable s \<noteq> None"
    and "NONULL value0 = NONULL (pattern_at (heap s) (variable s))"
  shows "regex_string_set E cs var cdef value0 s = (CSR_SUCCESS OR CSR_SUC_NO_CHANGE, s)"
proof -
  have "NONULL (if value0 = Some [] then None else value0) = NONULL value0"
    by (simp add: NONULL_def)
  with assms show ?thesis
    by (simp add: regex_string_set_def Let_def mutt_str_strcmp_eq0)
qed

lemma string_set_empty_unset:
  assumes "cs" "var" "cdef" "variable s = None" "value0 = None \<or> value0 = Some []"
  shows "regex_string_set E cs var cdef value0 s =
           (case validator (def s) of
              None \<Rightarrow> (CSR_SUCCESS OR CSR_SUC_EMPTY, s)
            | Some v \<Rightarrow>
                (if CSR_RESULT (fst (v (heap s) None (err s))) \<noteq> CSR_SUCCESS
                 then fst (v (heap s) None (err s)) OR CSR_INV_VALIDATOR
                 else fst (v (heap s) None (err s)) OR CSR_SUC_EMPTY,
                 s\<lparr>err := snd (v (heap s) None (err s)),
                   validated := validated s @ [(None, fst (v (heap s) None (err s)))]\<rparr>))"
proof (cases "validator (def s)")
  case None
  with assms show ?thesis
    by (auto simp: regex_string_set_def Let_def regex_destroy_def)
next
  case (Some v)
  obtain vrc e where vr: "v (heap s) None (err s) = (vrc, e)"
    by (cases "v (heap s) None (err s)")
  from assms Some vr show ?thesis
    by (auto simp: regex_string_set_def Let_def regex_destroy_def call_validator_def
        regex_free_def)
qed

lemma string_set_empty_accepted:
  assumes args: "cs" "var" "cdef"
    and ok: "storage_ok s"
    and pat: "variable s = None \<or> NONULL (pattern_at (heap s) (variable s)) \<noteq> []"
    and set: "regex_string_set E cs var cdef (Some []) s = (rc, s')"
    and acc: "validator (def s) = None
              \<or> (\<exists>v. validator (def s) = Some v
                       \<and> CSR_RESULT (fst (v (heap s) None (err s))) = CSR_SUCCESS)"
  shows "is_success_empty rc \<and> variable s' = None \<and> \<not> live (heap s') (variable s)"
proof (cases "validator (def s)")
  case None
  with args pat set have "rc = CSR_SUCCESS OR CSR_SUC_EMPTY"
    and "s' = (regex_destroy cs var cdef s)\<lparr>variable := None\<rparr>"
    by (auto simp: regex_string_set_def Let_def mutt_str_strcmp_eq0 NONULL_def)
  moreover have "is_success_empty (CSR_SUCCESS OR CSR_SUC_EMPTY)"
    by (rule success_empty_code) simp
  ultimately show ?thesis using args
    by (auto simp: regex_destroy_def regex_free_def live_def delete_conv'
        split: option.splits)
next
  case (Some v)
  obtain vrc e where vr: "v (heap s) None (err s) = (vrc, e)"
    by (cases "v (heap s) None (err s)")
  with Some acc have a: "CSR_RESULT vrc = CSR_SUCCESS" by simp
  from args pat set Some vr a have "rc = vrc OR CSR_SUC_EMPTY"
    and "s' = (regex_destroy cs var cdef
                 (s\<lparr>err := e, validated := validated s @ [(None, vrc)]\<rparr>))\<lparr>variable := None\<rparr>"
    by (auto simp: regex_string_set_def Let_def mutt_str_strcmp_eq0 NONULL_def
        call_validator_def)
  with success_empty_code[OF a] show ?thesis using args
    by (auto simp: regex_destroy_def regex_free_def live_def delete_conv'
        split: option.splits)
qed

section \<open>The paths of native-set\<close>

lemma native_set_success_args:
  assumes "regex_native_set E cs var cdef val s = (rc, s')" and "CSR_RESULT rc = CSR_SUCCESS"
  shows "cs \<and> var \<and> cdef"
  using assms unfolding regex_native_set_def by (auto split: if_splits)

lemma native_set_rejected:
  assumes "cs" "var" "cdef" and v: "validator (def s) = Some v"
    and vr: "v (heap s) val (err s) = (vrc, e2)"
    and rej: "CSR_RESULT vrc \<noteq> CSR_SUCCESS"
  shows "regex_native_set E cs var cdef val s
           = (vrc OR CSR_INV_VALIDATOR,
              s\<lparr>err := e2, validated := validated s @ [(val, vrc)]\<rparr>)"
  using assms
  by (simp add: regex_native_set_def Let_def call_validator_def)

lemma native_set_copy:
  assumes set: "regex_native_set E cs var cdef (Some a) s = (rc, s')"
    and suc: "CSR_RESULT rc = CSR_SUCCESS"
    and orig: "map_of (heap s) a = Some R" "pattern R = Some p"
  shows "rc = CSR_SUCCESS
         \<and> variable s' = Some (mutt_mem_calloc (heap s))
         \<and> heap s' = fst (regex_free
               ((mutt_mem_calloc (heap s),
                 spec_regex E (if not R then {DT_REGEX_ALLOW_NOT} else {}) p) # heap s)
               (variable s))
         \<and> def s' = def s"
  using assms unfolding regex_native_set_def
  by (auto simp: Let_def call_validator_def pattern_at_def not_at_def regex_create_text
      CSR_RESULT_or_validator
      split: if_splits option.splits prod.splits)

lemma native_set_stored:
  assumes ok: "storage_ok s"
    and set: "regex_native_set E cs var cdef (Some a) s = (rc, s')"
    and suc: "CSR_RESULT rc = CSR_SUCCESS"
    and orig: "map_of (heap s) a = Some R" "pattern R = Some p"
  shows "map_of (heap s') (mutt_mem_calloc (heap s))
           = Some (spec_regex E (if not R then {DT_REGEX_ALLOW_NOT} else {}) p)"
    and "variable s \<noteq> Some a \<Longrightarrow> map_of (heap s') a = Some R"
proof -
  note c = native_set_copy[OF set suc orig]
  show "map_of (heap s') (mutt_mem_calloc (heap s))
           = Some (spec_regex E (if not R then {DT_REGEX_ALLOW_NOT} else {}) p)"
  proof (cases "variable s")
    case None
    with c show ?thesis by (simp add: regex_free_def)
  next
    case (Some b)
    with ok have "live (heap s) (Some b)" by (simp add: storage_ok_def)
    then have "b \<noteq> mutt_mem_calloc (heap s)" by (rule live_not_new)
    with c Some show ?thesis by (simp add: regex_free_def map_of_delete_other)
  qed
  show "map_of (heap s') a = Some R" if "variable s \<noteq> Some a"
  proof (cases "variable s")
    case None
    with c orig show ?thesis by (auto simp: regex_free_def map_of_new)
  next
    case (Some b)
    with that have "b \<noteq> a" by simp
    with c Some orig show ?thesis by (auto simp: regex_free_def map_of_delete_other map_of_new)
  qed
qed

lemma native_set_type_independent:
  "regex_native_set E cs var cdef val (s\<lparr>def := (def s)\<lparr>type := ty\<rparr>\<rparr>)
     = (fst (regex_native_set E cs var cdef val s),
        (snd (regex_native_set E cs var cdef val s))\<lparr>def := (def s)\<lparr>type := ty\<rparr>\<rparr>)"
proof -
  obtain r h1 e1 where cr:
    "regex_create E (heap s) (pattern_at (heap s) val)
       (if not_at (heap s) val then {DT_REGEX_ALLOW_NOT} else {}) (err s) = (r, h1, e1)"
    using prod_cases3 by blast
  show ?thesis
  proof (cases "validator (def s)")
    case None
    then show ?thesis
      by (simp add: regex_native_set_def Let_def cr)
  next
    case (Some v)
    obtain vrc e where vr: "v (heap s) val (err s) = (vrc, e)"
      by (cases "v (heap s) val (err s)")
    obtain r2 h2 e2 where cr2:
      "regex_create E (heap s) (pattern_at (heap s) val)
         (if not_at (heap s) val then {DT_REGEX_ALLOW_NOT} else {}) e = (r2, h2, e2)"
      using prod_cases3 by blast
    from Some vr show ?thesis
      by (simp add: regex_native_set_def Let_def call_validator_def cr2)
  qed
qed

lemma stored_cflags_def_update: "stored_cflags (s\<lparr>def := d\<rparr>) = stored_cflags s"
  by (simp add: stored_cflags_def split: option.splits)

lemma native_copy_cflags:
  "spec_cflags (if n then {DT_REGEX_ALLOW_NOT} else {}) p
     = (if mutt_mb_is_lower p then {REG_ICASE} else {})"
  using mutt_mb_is_lower_remaining[of p "if n then {DT_REGEX_ALLOW_NOT} else {}"]
  by (simp add: spec_cflags_def spec_icase_def)

section \<open>Facts about the quad tokens\<close>

lemma quad_string_set_invalid:
  assumes "NONULL val \<notin> fst ` set QuadValues"
  shows "CSR_RESULT (fst (quad_string_set cs var cdef val q)) \<noteq> CSR_SUCCESS
         \<and> snd (quad_string_set cs var cdef val q) = q"
proof -
  from assms have "map_of QuadValues (NONULL val) = None"
    by (simp add: map_of_eq_None_iff)
  then show ?thesis by (simp add: quad_string_set_def)
qed

lemma empty_not_quad: "NONULL (Some []) \<notin> fst ` set QuadValues"
  by (simp add: NONULL_def QuadValues_def)

section \<open>Validator veto\<close>

text \<open>
  C1: for a regex item with a validator, when the validator rejects the proposed value
  (the result of the code it returns is not a success), \<open>regex_string_set\<close> and
  \<open>regex_native_set\<close> return that code with \<open>CSR_INV_VALIDATOR\<close>, which is the
  classification ValidatorRejected and is never \<open>CSR_ERR_INVALID\<close>. The state after the
  call is the state before it with the validator's message in the error buffer and
  the call on record: the variable, the definition and the heap are unchanged. For
  \<open>regex_string_set\<close> the value proposed to the validator is the object that
  \<open>regex_create\<close> made from the text (or \<open>NULL\<close> for the empty text); it is live when
  the validator sees it and no longer live after the call, so it was destroyed and
  not committed. For \<open>regex_native_set\<close> the proposed value is the caller's.
\<close>

theorem validator_veto:
  "(cs \<and> var \<and> cdef \<and> validator (def s) = Some v \<and> t \<noteq> []
      \<and> \<not> (variable s \<noteq> None \<and> t = NONULL (pattern_at (heap s) (variable s)))
      \<and> regex_create E (heap s) (Some t) (type (def s)) (err s) = (Some a, h1, e1)
      \<and> v h1 (Some a) e1 = (vrc, e2) \<and> CSR_RESULT vrc \<noteq> CSR_SUCCESS
    \<longrightarrow> regex_string_set E cs var cdef (Some t) s
          = (vrc OR CSR_INV_VALIDATOR,
             s\<lparr>err := e2, validated := validated s @ [(Some a, vrc)]\<rparr>)
        \<and> live h1 (Some a)
        \<and> \<not> live (heap (snd (regex_string_set E cs var cdef (Some t) s))) (Some a))
   \<and> (cs \<and> var \<and> cdef \<and> validator (def s) = Some v
      \<and> (value0 = None \<or> value0 = Some [])
      \<and> \<not> (variable s \<noteq> None \<and> NONULL (pattern_at (heap s) (variable s)) = [])
      \<and> v (heap s) None (err s) = (vrc, e2) \<and> CSR_RESULT vrc \<noteq> CSR_SUCCESS
    \<longrightarrow> regex_string_set E cs var cdef value0 s
          = (vrc OR CSR_INV_VALIDATOR,
             s\<lparr>err := e2, validated := validated s @ [(None, vrc)]\<rparr>))
   \<and> (cs \<and> var \<and> cdef \<and> validator (def s) = Some v
      \<and> v (heap s) val (err s) = (vrc, e2) \<and> CSR_RESULT vrc \<noteq> CSR_SUCCESS
    \<longrightarrow> regex_native_set E cs var cdef val s
          = (vrc OR CSR_INV_VALIDATOR,
             s\<lparr>err := e2, validated := validated s @ [(val, vrc)]\<rparr>))
   \<and> (CSR_RESULT vrc \<noteq> CSR_SUCCESS
    \<longrightarrow> is_validator_rejected (vrc OR CSR_INV_VALIDATOR)
        \<and> vrc OR CSR_INV_VALIDATOR \<noteq> CSR_ERR_INVALID)"
proof (intro conjI impI)
  assume a: "cs \<and> var \<and> cdef \<and> validator (def s) = Some v \<and> t \<noteq> []
      \<and> \<not> (variable s \<noteq> None \<and> t = NONULL (pattern_at (heap s) (variable s)))
      \<and> regex_create E (heap s) (Some t) (type (def s)) (err s) = (Some a, h1, e1)
      \<and> v h1 (Some a) e1 = (vrc, e2) \<and> CSR_RESULT vrc \<noteq> CSR_SUCCESS"
  then have h: "cs" "var" "cdef" "validator (def s) = Some v" "t \<noteq> []"
    "\<not> (variable s \<noteq> None \<and> t = NONULL (pattern_at (heap s) (variable s)))"
    "regex_create E (heap s) (Some t) (type (def s)) (err s) = (Some a, h1, e1)"
    "v h1 (Some a) e1 = (vrc, e2)" "CSR_RESULT vrc \<noteq> CSR_SUCCESS"
    by blast+
  note r = string_set_rejected[OF h]
  show "regex_string_set E cs var cdef (Some t) s
          = (vrc OR CSR_INV_VALIDATOR,
             s\<lparr>err := e2, validated := validated s @ [(Some a, vrc)]\<rparr>)"
    by (rule r(1))
  show "live h1 (Some a)" by (rule r(2))
  show "\<not> live (heap (snd (regex_string_set E cs var cdef (Some t) s))) (Some a)"
    using r(3) by (simp add: r(1))
next
  assume "cs \<and> var \<and> cdef \<and> validator (def s) = Some v
      \<and> (value0 = None \<or> value0 = Some [])
      \<and> \<not> (variable s \<noteq> None \<and> NONULL (pattern_at (heap s) (variable s)) = [])
      \<and> v (heap s) None (err s) = (vrc, e2) \<and> CSR_RESULT vrc \<noteq> CSR_SUCCESS"
  then show "regex_string_set E cs var cdef value0 s
          = (vrc OR CSR_INV_VALIDATOR,
             s\<lparr>err := e2, validated := validated s @ [(None, vrc)]\<rparr>)"
    using string_set_empty_rejected_path[of cs var cdef s v value0 vrc e2 E] by blast
next
  assume "cs \<and> var \<and> cdef \<and> validator (def s) = Some v
      \<and> v (heap s) val (err s) = (vrc, e2) \<and> CSR_RESULT vrc \<noteq> CSR_SUCCESS"
  then show "regex_native_set E cs var cdef val s
          = (vrc OR CSR_INV_VALIDATOR,
             s\<lparr>err := e2, validated := validated s @ [(val, vrc)]\<rparr>)"
    using native_set_rejected[of cs var cdef s v val vrc e2 E] by blast
next
  assume "CSR_RESULT vrc \<noteq> CSR_SUCCESS"
  then show "is_validator_rejected (vrc OR CSR_INV_VALIDATOR)" by (rule rejected_code)
next
  show "vrc OR CSR_INV_VALIDATOR \<noteq> CSR_ERR_INVALID" by (rule or_validator_not_invalid)
qed

theorem validator_veto_witness:
  "pattern_at (heap state3) (variable state3) = Some ''ab''
   \<and> live (heap state3) (Some 5)
   \<and> regex_string_set E0 True True True (Some ''xy'') state3
       = (35, state3\<lparr>err := Some \<lparr>data = ''validator_fail'', dsize = 256\<rparr>,
                     validated := [(Some 6, 3)]\<rparr>)
   \<and> regex_string_set E0 True True True (Some []) state3
       = (35, state3\<lparr>err := Some \<lparr>data = ''validator_fail'', dsize = 256\<rparr>,
                     validated := [(None, 3)]\<rparr>)
   \<and> regex_native_set E0 True True True (Some 5) state3
       = (35, state3\<lparr>err := Some \<lparr>data = ''validator_fail'', dsize = 256\<rparr>,
                     validated := [(Some 5, 3)]\<rparr>)
   \<and> is_validator_rejected 35 \<and> 35 \<noteq> CSR_ERR_INVALID"
proof -
  let ?R = "\<lparr>pattern = Some ''xy'',
             regex = Some \<lparr>re_text = ''xy'', re_cflags = {REG_ICASE}, re_rc = 0\<rparr>,
             not = False\<rparr>"
  let ?h1 = "(6, ?R) # heap state3"
  let ?e = "Some \<lparr>data = ''validator_fail'', dsize = 256\<rparr>"
  note t = validator_veto[of True True True state3 validator_fail "''xy''" E0 6 ?h1 "err state3"
      3 ?e "Some []" "Some 5"]
  have p: "pattern_at (heap state3) (variable state3) = Some ''ab''"
    by (simp add: pattern_at_def state3_def)
  have l: "live (heap state3) (Some 5)"
    by (simp add: live_def state3_def)
  have rj: "CSR_RESULT 3 \<noteq> CSR_SUCCESS" by (simp add: csr_defs)
  have vd: "validator (def state3) = Some validator_fail" by (simp add: state3_def)
  have cr: "regex_create E0 (heap state3) (Some ''xy'') (type (def state3)) (err state3)
              = (Some 6, ?h1, err state3)"
    by (simp add: codec_eval state3_def)
  have v1: "validator_fail ?h1 (Some 6) (err state3) = (3, ?e)"
    by (simp add: validator_fail_def state3_def csr_defs)
  have v2: "validator_fail (heap state3) None (err state3) = (3, ?e)"
    by (simp add: validator_fail_def state3_def csr_defs)
  have v3: "validator_fail (heap state3) (Some 5) (err state3) = (3, ?e)"
    by (simp add: validator_fail_def state3_def csr_defs)
  have h1: "True \<and> True \<and> True \<and> validator (def state3) = Some validator_fail \<and> ''xy'' \<noteq> []
      \<and> \<not> (variable state3 \<noteq> None
             \<and> ''xy'' = NONULL (pattern_at (heap state3) (variable state3)))
      \<and> regex_create E0 (heap state3) (Some ''xy'') (type (def state3)) (err state3)
          = (Some 6, ?h1, err state3)
      \<and> validator_fail ?h1 (Some 6) (err state3) = (3, ?e) \<and> CSR_RESULT 3 \<noteq> CSR_SUCCESS"
    using vd cr v1 rj p by (simp add: NONULL_def)
  have h2: "True \<and> True \<and> True \<and> validator (def state3) = Some validator_fail
      \<and> (Some [] = None \<or> Some [] = Some ([]::string))
      \<and> \<not> (variable state3 \<noteq> None
             \<and> NONULL (pattern_at (heap state3) (variable state3)) = [])
      \<and> validator_fail (heap state3) None (err state3) = (3, ?e)
      \<and> CSR_RESULT 3 \<noteq> CSR_SUCCESS"
    using vd v2 rj p by (simp add: NONULL_def)
  have h3: "True \<and> True \<and> True \<and> validator (def state3) = Some validator_fail
      \<and> validator_fail (heap state3) (Some 5) (err state3) = (3, ?e)
      \<and> CSR_RESULT 3 \<noteq> CSR_SUCCESS"
    using vd v3 rj by simp
  from t[THEN conjunct1, rule_format, OF h1]
  have c1: "regex_string_set E0 True True True (Some ''xy'') state3
       = (35, state3\<lparr>err := ?e, validated := [(Some 6, 3)]\<rparr>)"
    by (simp add: csr_defs state3_def)
  from t[THEN conjunct2, THEN conjunct1, rule_format, OF h2]
  have c2: "regex_string_set E0 True True True (Some []) state3
       = (35, state3\<lparr>err := ?e, validated := [(None, 3)]\<rparr>)"
    by (simp add: csr_defs state3_def)
  from t[THEN conjunct2, THEN conjunct2, THEN conjunct1, rule_format, OF h3]
  have c3: "regex_native_set E0 True True True (Some 5) state3
       = (35, state3\<lparr>err := ?e, validated := [(Some 5, 3)]\<rparr>)"
    by (simp add: csr_defs state3_def)
  from t[THEN conjunct2, THEN conjunct2, THEN conjunct2, rule_format, OF rj]
  have c4: "is_validator_rejected 35 \<and> 35 \<noteq> CSR_ERR_INVALID"
    by (simp add: csr_defs)
  from p l c1 c2 c3 c4 show ?thesis by blast
qed

section \<open>Round trip through string-set and string-get\<close>

text \<open>
  C2: for every text that \<open>regex_string_set\<close> accepts (its result is a success), the
  \<open>regex_string_get\<close> that follows succeeds and appends exactly that text to the result
  buffer, the leading \<open>!\<close> included. A \<open>NULL\<close> or empty text reads back as the empty
  text.
\<close>

theorem regex_round_trip:
  assumes "storage_ok s"
    and "regex_string_set E cs var cdef value0 s = (rc, s')"
    and "CSR_RESULT rc = CSR_SUCCESS"
  shows "CSR_RESULT (fst (regex_string_get cs var cdef result s')) = CSR_SUCCESS
         \<and> data (snd (regex_string_get cs var cdef result s')) = data result @ NONULL value0"
proof -
  from string_set_success_args[OF assms(2,3)] have args: "cs" "cdef" by simp_all
  let ?str = "if var then pattern_at (heap s') (variable s') else initial (def s')"
  have get: "regex_string_get cs var cdef result s' =
               (case ?str of None \<Rightarrow> (CSR_SUCCESS OR CSR_SUC_EMPTY, result)
                | Some t \<Rightarrow> (CSR_SUCCESS, mutt_buffer_addstr result t))"
    using args by (simp add: regex_string_get_def pattern_at_def)
  from string_set_get[OF assms]
  show ?thesis
  proof
    assume "?str = Some (NONULL value0)"
    then show ?thesis unfolding get by (simp add: mutt_buffer_addstr_def)
  next
    assume "NONULL value0 = [] \<and> ?str = None"
    then show ?thesis unfolding get by simp
  qed
qed

theorem regex_round_trip_witness:
  "storage_ok (state0 None)
   \<and> regex_string_set E0 True True True (Some ''!^TODO'') (state0 None)
       = (0, (state0 None)\<lparr>heap := [(1, \<lparr>pattern = Some ''!^TODO'',
                 regex = Some \<lparr>re_text = ''^TODO'', re_cflags = {}, re_rc = 0\<rparr>,
                 not = True\<rparr>)], variable := Some 1\<rparr>)
   \<and> CSR_RESULT 0 = CSR_SUCCESS
   \<and> data (snd (regex_string_get True True True \<lparr>data = [], dsize = 256\<rparr>
         ((state0 None)\<lparr>heap := [(1, \<lparr>pattern = Some ''!^TODO'',
                 regex = Some \<lparr>re_text = ''^TODO'', re_cflags = {}, re_rc = 0\<rparr>,
                 not = True\<rparr>)], variable := Some 1\<rparr>))) = ''!^TODO''"
proof -
  let ?s' = "(state0 None)\<lparr>heap := [(1, \<lparr>pattern = Some ''!^TODO'',
                 regex = Some \<lparr>re_text = ''^TODO'', re_cflags = {}, re_rc = 0\<rparr>,
                 not = True\<rparr>)], variable := Some 1\<rparr>"
  have ok: "storage_ok (state0 None)"
    by (simp add: storage_ok_def state0_def)
  have e: "regex_string_set E0 True True True (Some ''!^TODO'') (state0 None) = (0, ?s')"
    by (simp add: codec_eval csr_defs)
  have r: "CSR_RESULT 0 = CSR_SUCCESS"
    by (simp add: csr_defs)
  from regex_round_trip[OF ok e r, of "\<lparr>data = [], dsize = 256\<rparr>"]
  have "data (snd (regex_string_get True True True \<lparr>data = [], dsize = 256\<rparr> ?s')) = ''!^TODO''"
    by (simp add: NONULL_def)
  with ok e r show ?thesis by blast
qed

section \<open>Parsing a pattern\<close>

text \<open>
  C3: for every text and flags, \<open>regex_create\<close> sets the negation flag, and strips the
  leading \<open>!\<close> from the text it compiles, exactly when the flags permit negation and the
  text begins with \<open>!\<close>; it compiles with \<open>REG_ICASE\<close> exactly when the flags do not
  force case sensitivity and the remaining text has no uppercase letter. When no object
  is returned, it is that compilation, of that text in that mode, which failed.
\<close>

theorem regex_create_parse:
  assumes "regex_create E h (Some s) flags er = (r, h', e')"
  shows "case r of
           Some a \<Rightarrow>
             (\<exists>R t. map_of h' a = Some R \<and> regex R = Some t \<and> pattern R = Some s
                \<and> not R = (DT_REGEX_ALLOW_NOT \<in> flags \<and> take 1 s = ''!'')
                \<and> re_text t = (if not R then drop 1 s else s)
                \<and> (REG_ICASE \<in> re_cflags t
                     \<longleftrightarrow> DT_REGEX_MATCH_CASE \<notin> flags \<and> (\<forall>c \<in> set (re_text t). \<not> isupper c))
                \<and> re_rc t = REGCOMP E (re_text t) (re_cflags t))
         | None \<Rightarrow>
             (\<exists>cf. (REG_ICASE \<in> cf
                     \<longleftrightarrow> DT_REGEX_MATCH_CASE \<notin> flags
                         \<and> (\<forall>c \<in> set (if DT_REGEX_ALLOW_NOT \<in> flags \<and> take 1 s = ''!''
                                         then drop 1 s else s). \<not> isupper c))
                \<and> REGCOMP E (if DT_REGEX_ALLOW_NOT \<in> flags \<and> take 1 s = ''!''
                               then drop 1 s else s) cf \<noteq> 0)"
proof (cases "REGCOMP E (spec_remaining flags s) (spec_cflags flags s) \<noteq> 0 \<and> er \<noteq> None")
  case True
  with assms have "r = None" by (simp add: regex_create_text)
  moreover have "REG_ICASE \<in> spec_cflags flags s \<longleftrightarrow> spec_icase flags s"
    by (simp add: spec_cflags_def)
  ultimately show ?thesis using True
    by (auto simp: spec_icase_def spec_remaining_def spec_negated_def
        intro!: exI[of _ "spec_cflags flags s"])
next
  case False
  with assms have r: "r = Some (mutt_mem_calloc h)"
    and h': "h' = (mutt_mem_calloc h, spec_regex E flags s) # h"
    by (auto simp: regex_create_text)
  have "REG_ICASE \<in> spec_cflags flags s \<longleftrightarrow> spec_icase flags s"
    by (simp add: spec_cflags_def)
  then show ?thesis unfolding r h'
    by (simp add: spec_regex_def spec_icase_def spec_remaining_def spec_negated_def)
qed

theorem regex_create_parse_witness:
  "regex_create E0 [] (Some ''!^TODO'') {DT_REGEX_ALLOW_NOT} None
     = (Some 1,
        [(1, \<lparr>pattern = Some ''!^TODO'',
               regex = Some \<lparr>re_text = ''^TODO'', re_cflags = {}, re_rc = 0\<rparr>,
               not = True\<rparr>)],
        None)
   \<and> regex_create E0 [] (Some ''^[a-z]+'') {DT_REGEX_ALLOW_NOT} None
     = (Some 1,
        [(1, \<lparr>pattern = Some ''^[a-z]+'',
               regex = Some \<lparr>re_text = ''^[a-z]+'', re_cflags = {REG_ICASE}, re_rc = 0\<rparr>,
               not = False\<rparr>)],
        None)
   \<and> (\<exists>R t. map_of [(1, \<lparr>pattern = Some ''!^TODO'',
               regex = Some \<lparr>re_text = ''^TODO'', re_cflags = {}, re_rc = 0\<rparr>,
               not = True\<rparr>)] (1::nat) = Some R \<and> regex R = Some t \<and> not R
          \<and> re_text t = ''^TODO'' \<and> REG_ICASE \<notin> re_cflags t)"
proof -
  let ?h = "[(1::nat, \<lparr>pattern = Some ''!^TODO'',
               regex = Some \<lparr>re_text = ''^TODO'', re_cflags = {}, re_rc = 0\<rparr>,
               not = True\<rparr>)]"
  have e1: "regex_create E0 [] (Some ''!^TODO'') {DT_REGEX_ALLOW_NOT} None = (Some 1, ?h, None)"
    by (simp add: codec_eval)
  have e2: "regex_create E0 [] (Some ''^[a-z]+'') {DT_REGEX_ALLOW_NOT} None
     = (Some 1,
        [(1, \<lparr>pattern = Some ''^[a-z]+'',
               regex = Some \<lparr>re_text = ''^[a-z]+'', re_cflags = {REG_ICASE}, re_rc = 0\<rparr>,
               not = False\<rparr>)],
        None)"
    by (simp add: codec_eval)
  from regex_create_parse[OF e1]
  have "\<exists>R t. map_of ?h (1::nat) = Some R \<and> regex R = Some t \<and> not R
          \<and> re_text t = ''^TODO'' \<and> REG_ICASE \<notin> re_cflags t"
    by (auto simp: isupper_def)
  with e1 e2 show ?thesis by blast
qed

section \<open>A pattern that does not compile\<close>

lemma string_set_compile_failure_with_sink:
  assumes "cs" "var" "cdef"
    and "\<not> (variable s \<noteq> None \<and> t = NONULL (pattern_at (heap s) (variable s)))"
    and "t \<noteq> []"
    and "REGCOMP E (spec_remaining (type (def s)) t) (spec_cflags (type (def s)) t) = rc"
    and "rc \<noteq> 0"
    and "err s = Some b"
  shows "regex_string_set E cs var cdef (Some t) s
           = (CSR_ERR_INVALID, s\<lparr>err := Some (write_regerror E rc b)\<rparr>)"
  using assms
  by (auto simp: regex_string_set_def Let_def mutt_str_strcmp_eq0 NONULL_def regex_create_text)

text \<open>
  C4, as the code has it: for a regex item with live storage and a caller's error
  buffer, a text other than the stored pattern whose compilation fails makes
  \<open>regex_string_set\<close> return \<open>CSR_ERR_INVALID\<close>; the engine's diagnostic, cut to the size
  of the buffer, is written to it, and the heap, the variable and the definition are
  as before. Without live storage the text is not compiled at all: it is recorded as
  the definition's initial value and the call returns \<open>CSR_SUCCESS\<close>.
\<close>

theorem string_set_compile_failure:
  "(cs \<and> var \<and> cdef
      \<and> \<not> (variable s \<noteq> None \<and> t = NONULL (pattern_at (heap s) (variable s)))
      \<and> t \<noteq> []
      \<and> REGCOMP E (spec_remaining (type (def s)) t) (spec_cflags (type (def s)) t) = rc
      \<and> rc \<noteq> 0 \<and> err s = Some b
    \<longrightarrow> regex_string_set E cs var cdef (Some t) s
          = (CSR_ERR_INVALID, s\<lparr>err := Some (write_regerror E rc b)\<rparr>))
   \<and> (cs \<and> \<not> var \<and> cdef
    \<longrightarrow> regex_string_set E cs var cdef (Some t) s
          = (CSR_SUCCESS,
             s\<lparr>def := (def s)\<lparr>type := insert DT_INITIAL_SET (type (def s)),
                                initial := (if t = [] then None else Some t)\<rparr>\<rparr>))"
proof (rule conjI; rule impI)
  assume "cs \<and> var \<and> cdef
      \<and> \<not> (variable s \<noteq> None \<and> t = NONULL (pattern_at (heap s) (variable s)))
      \<and> t \<noteq> []
      \<and> REGCOMP E (spec_remaining (type (def s)) t) (spec_cflags (type (def s)) t) = rc
      \<and> rc \<noteq> 0 \<and> err s = Some b"
  then show "regex_string_set E cs var cdef (Some t) s
          = (CSR_ERR_INVALID, s\<lparr>err := Some (write_regerror E rc b)\<rparr>)"
    by (simp add: string_set_compile_failure_with_sink)
next
  assume "cs \<and> \<not> var \<and> cdef"
  then show "regex_string_set E cs var cdef (Some t) s
          = (CSR_SUCCESS,
             s\<lparr>def := (def s)\<lparr>type := insert DT_INITIAL_SET (type (def s)),
                                initial := (if t = [] then None else Some t)\<rparr>\<rparr>)"
    by (simp add: regex_string_set_def Let_def)
qed

theorem string_set_compile_failure_witness:
  "REGCOMP E0 (spec_remaining (type (def (state1\<lparr>err := Some \<lparr>data = [], dsize = 8\<rparr>\<rparr>))) ''['')
      (spec_cflags (type (def (state1\<lparr>err := Some \<lparr>data = [], dsize = 8\<rparr>\<rparr>))) ''['') = 7
   \<and> regex_string_set E0 True True True (Some ''['') (state1\<lparr>err := Some \<lparr>data = [], dsize = 8\<rparr>\<rparr>)
       = (CSR_ERR_INVALID, state1\<lparr>err := Some \<lparr>data = ''bracket'', dsize = 8\<rparr>\<rparr>)
   \<and> pattern_at (heap (snd (regex_string_set E0 True True True (Some ''['')
          (state1\<lparr>err := Some \<lparr>data = [], dsize = 8\<rparr>\<rparr>)))) (Some 1) = Some ''ab''"
proof -
  let ?s = "state1\<lparr>err := Some \<lparr>data = [], dsize = 8\<rparr>\<rparr>"
  have c: "REGCOMP E0 (spec_remaining (type (def ?s)) ''['') (spec_cflags (type (def ?s)) ''['') = 7"
    by (simp add: E0_def spec_remaining_def spec_negated_def state1_def)
  have h: "True \<and> True \<and> True
      \<and> \<not> (variable ?s \<noteq> None \<and> ''['' = NONULL (pattern_at (heap ?s) (variable ?s)))
      \<and> ''['' \<noteq> []
      \<and> REGCOMP E0 (spec_remaining (type (def ?s)) ''['') (spec_cflags (type (def ?s)) ''['') = 7
      \<and> (7::int) \<noteq> 0 \<and> err ?s = Some \<lparr>data = [], dsize = 8\<rparr>"
    using c by (simp add: state1_def pattern_at_def NONULL_def)
  from string_set_compile_failure[of True True True ?s "''[''" E0 7 "\<lparr>data = [], dsize = 8\<rparr>",
      THEN conjunct1, rule_format, OF h]
  have e: "regex_string_set E0 True True True (Some ''['') ?s
       = (CSR_ERR_INVALID, state1\<lparr>err := Some \<lparr>data = ''bracket'', dsize = 8\<rparr>\<rparr>)"
    by (simp add: write_regerror_def E0_def)
  then have "pattern_at (heap (snd (regex_string_set E0 True True True (Some ''['') ?s))) (Some 1)
      = Some ''ab''"
    by (simp add: pattern_at_def state1_def)
  with c e show ?thesis by blast
qed

text \<open>
  The claim as stated speaks of every regex item. For an item without live storage,
  the unbalanced bracket, which the engine refuses to compile, is accepted and
  recorded as the initial value.
\<close>

theorem string_set_uncompiled_initial:
  "REGCOMP E0 ''['' {REG_ICASE} \<noteq> 0
   \<and> regex_string_set E0 True False True (Some ''['') (state0 None)
       = (CSR_SUCCESS,
          (state0 None)\<lparr>def := \<lparr>type = {DT_INITIAL_SET, DT_REGEX_ALLOW_NOT},
                                initial = Some ''['', validator = None\<rparr>\<rparr>)
   \<and> CSR_SUCCESS \<noteq> CSR_ERR_INVALID"
  by (simp add: codec_eval csr_defs)

text \<open>
  What the theorem leaves out: \<open>regex_create\<close> takes its failure branch only under
  \<open>(rc != 0) && err\<close>. Called without an error buffer on the unbalanced bracket,
  \<open>regex_string_set\<close> returns \<open>CSR_SUCCESS\<close>, releases the stored pattern \<open>ab\<close> and
  stores an object whose compilation failed with code 7; the same call with an error
  buffer returns \<open>CSR_ERR_INVALID\<close> and keeps \<open>ab\<close>.
\<close>

lemma string_set_compile_failure_null_err:
  "REGCOMP E0 ''['' {REG_ICASE} \<noteq> 0
   \<and> regex_string_set E0 True True True (Some ''['') state1
       = (CSR_SUCCESS,
          state1\<lparr>heap := [(2, \<lparr>pattern = Some ''['',
                               regex = Some \<lparr>re_text = ''['', re_cflags = {REG_ICASE}, re_rc = 7\<rparr>,
                               not = False\<rparr>)],
                  variable := Some 2\<rparr>)
   \<and> regex_string_set E0 True True True (Some ''['') (state1\<lparr>err := Some \<lparr>data = [], dsize = 256\<rparr>\<rparr>)
       = (CSR_ERR_INVALID,
          state1\<lparr>err := Some \<lparr>data = ''brackets ([ ]) not balanced'', dsize = 256\<rparr>\<rparr>)"
  by (simp add: codec_eval csr_defs state1_def)

section \<open>Setting the stored text again\<close>

text \<open>
  C5, as the code has it: for a regex item whose variable points to a live object,
  \<open>regex_string_set\<close> with the text of the stored pattern returns
  \<open>CSR_SUCCESS | CSR_SUC_NO_CHANGE\<close> and leaves the whole state as it was: the variable,
  the heap, and the record of validator calls, so the validator is not invoked. Hence,
  after a successful \<open>regex_string_set\<close> with a text that is not empty, the variable
  points to a live object and the same call again returns
  \<open>CSR_SUCCESS | CSR_SUC_NO_CHANGE\<close> and changes nothing.
\<close>

theorem string_set_no_change:
  "(cs \<and> var \<and> cdef \<and> live (heap s) (variable s)
      \<and> NONULL value0 = NONULL (pattern_at (heap s) (variable s))
    \<longrightarrow> regex_string_set E cs var cdef value0 s = (CSR_SUCCESS OR CSR_SUC_NO_CHANGE, s)
        \<and> validated (snd (regex_string_set E cs var cdef value0 s)) = validated s)
   \<and> (storage_ok s \<and> var \<and> regex_string_set E cs var cdef value0 s = (rc, s')
      \<and> CSR_RESULT rc = CSR_SUCCESS \<and> NONULL value0 \<noteq> []
    \<longrightarrow> live (heap s') (variable s')
        \<and> regex_string_set E cs var cdef value0 s' = (CSR_SUCCESS OR CSR_SUC_NO_CHANGE, s'))"
proof (rule conjI; rule impI)
  assume a: "cs \<and> var \<and> cdef \<and> live (heap s) (variable s)
      \<and> NONULL value0 = NONULL (pattern_at (heap s) (variable s))"
  then have "variable s \<noteq> None" by (auto simp: live_def split: option.splits)
  with a have "regex_string_set E cs var cdef value0 s = (CSR_SUCCESS OR CSR_SUC_NO_CHANGE, s)"
    by (simp add: string_set_same_text)
  then show "regex_string_set E cs var cdef value0 s = (CSR_SUCCESS OR CSR_SUC_NO_CHANGE, s)
        \<and> validated (snd (regex_string_set E cs var cdef value0 s)) = validated s"
    by simp
next
  assume a: "storage_ok s \<and> var \<and> regex_string_set E cs var cdef value0 s = (rc, s')
      \<and> CSR_RESULT rc = CSR_SUCCESS \<and> NONULL value0 \<noteq> []"
  then have ok: "storage_ok s" and v: "var"
    and set: "regex_string_set E cs var cdef value0 s = (rc, s')"
    and suc: "CSR_RESULT rc = CSR_SUCCESS" and ne: "NONULL value0 \<noteq> []"
    by blast+
  from string_set_success_args[OF set suc] have args: "cs" "cdef" by simp_all
  from string_set_get[OF ok set suc] v ne
  have pat: "pattern_at (heap s') (variable s') = Some (NONULL value0)"
    by auto
  then have lv: "live (heap s') (variable s')"
    by (auto simp: pattern_at_def live_def split: option.splits)
  then have nn: "variable s' \<noteq> None"
    by (auto simp: live_def split: option.splits)
  from pat have "NONULL value0 = NONULL (pattern_at (heap s') (variable s'))"
    by (simp add: NONULL_def)
  with args v nn lv
  show "live (heap s') (variable s')
        \<and> regex_string_set E cs var cdef value0 s' = (CSR_SUCCESS OR CSR_SUC_NO_CHANGE, s')"
    by (simp add: string_set_same_text)
qed

theorem string_set_no_change_witness:
  "storage_ok (state0 None)
   \<and> regex_string_set E0 True True True (Some ''ab'') (state0 None)
       = (0, (state0 None)\<lparr>heap := [(1, \<lparr>pattern = Some ''ab'',
                 regex = Some \<lparr>re_text = ''ab'', re_cflags = {REG_ICASE}, re_rc = 0\<rparr>,
                 not = False\<rparr>)], variable := Some 1\<rparr>)
   \<and> regex_string_set E0 True True True (Some ''ab'')
         ((state0 None)\<lparr>heap := [(1, \<lparr>pattern = Some ''ab'',
                 regex = Some \<lparr>re_text = ''ab'', re_cflags = {REG_ICASE}, re_rc = 0\<rparr>,
                 not = False\<rparr>)], variable := Some 1\<rparr>)
       = (128, (state0 None)\<lparr>heap := [(1, \<lparr>pattern = Some ''ab'',
                 regex = Some \<lparr>re_text = ''ab'', re_cflags = {REG_ICASE}, re_rc = 0\<rparr>,
                 not = False\<rparr>)], variable := Some 1\<rparr>)
   \<and> validated (snd (regex_string_set E0 True True True (Some ''ab'')
         ((state0 (Some validator_fail))\<lparr>heap := [(1, \<lparr>pattern = Some ''ab'',
                 regex = Some \<lparr>re_text = ''ab'', re_cflags = {REG_ICASE}, re_rc = 0\<rparr>,
                 not = False\<rparr>)], variable := Some 1\<rparr>))) = []"
proof -
  let ?h = "[(1::nat, \<lparr>pattern = Some ''ab'',
                 regex = Some \<lparr>re_text = ''ab'', re_cflags = {REG_ICASE}, re_rc = 0\<rparr>,
                 not = False\<rparr>)]"
  let ?s' = "(state0 None)\<lparr>heap := ?h, variable := Some 1\<rparr>"
  let ?t = "(state0 (Some validator_fail))\<lparr>heap := ?h, variable := Some 1\<rparr>"
  have ok: "storage_ok (state0 None)"
    by (simp add: storage_ok_def state0_def)
  have e: "regex_string_set E0 True True True (Some ''ab'') (state0 None) = (0, ?s')"
    by (simp add: codec_eval csr_defs)
  have h: "storage_ok (state0 None) \<and> True
      \<and> regex_string_set E0 True True True (Some ''ab'') (state0 None) = (0, ?s')
      \<and> CSR_RESULT 0 = CSR_SUCCESS \<and> NONULL (Some ''ab'') \<noteq> []"
    using ok e by (simp add: csr_defs NONULL_def)
  from string_set_no_change[of True True True "state0 None" "Some ''ab''" E0 0 ?s',
      THEN conjunct2, rule_format, OF h]
  have second: "regex_string_set E0 True True True (Some ''ab'') ?s' = (128, ?s')"
    by (simp add: csr_defs)
  have g: "True \<and> True \<and> True \<and> live (heap ?t) (variable ?t)
      \<and> NONULL (Some ''ab'') = NONULL (pattern_at (heap ?t) (variable ?t))"
    by (simp add: live_def pattern_at_def NONULL_def state0_def)
  from string_set_no_change[of True True True ?t "Some ''ab''" E0 0 ?t,
      THEN conjunct1, rule_format, OF g]
  have "validated (snd (regex_string_set E0 True True True (Some ''ab'') ?t)) = []"
    by (simp add: state0_def)
  with ok e second show ?thesis by blast
qed

text \<open>
  The claim as stated has the second of two identical calls always return
  Success\<cdot>NoChange. On the item holding \<open>ab\<close>, the empty text succeeds with
  \<open>CSR_SUCCESS | CSR_SUC_EMPTY\<close> (32) and unsets the storage; the same call again
  returns 32 once more, not \<open>CSR_SUCCESS | CSR_SUC_NO_CHANGE\<close> (128).
\<close>

theorem string_set_empty_twice:
  "live (heap state1) (variable state1)
   \<and> regex_string_set E0 True True True (Some []) state1
       = (32, state1\<lparr>heap := [], variable := None\<rparr>)
   \<and> CSR_RESULT 32 = CSR_SUCCESS
   \<and> regex_string_set E0 True True True (Some []) (state1\<lparr>heap := [], variable := None\<rparr>)
       = (32, state1\<lparr>heap := [], variable := None\<rparr>)
   \<and> 32 \<noteq> CSR_SUCCESS OR CSR_SUC_NO_CHANGE"
  by (simp add: codec_eval csr_defs state1_def)

section \<open>native-set installs a copy\<close>

text \<open>
  C6: after a successful \<open>regex_native_set\<close> from a caller's value with a pattern, the
  variable points to an object that was not live before, so it is not the caller's.
  Its pattern is the caller's text, and its matcher is compiled anew from that text:
  from the text without its leading \<open>!\<close> when the caller's value is negated and the
  text begins with \<open>!\<close>, from the whole text otherwise, case-insensitively when the
  text has no uppercase letter; it holds the outcome of that compilation. The two
  lifetimes are independent: freeing the caller's value leaves the stored pattern
  readable, and, when the caller's value is not the one the variable held, neither
  the call nor a later destroy of the item touches the caller's value.
\<close>

theorem native_set_deep_copy:
  assumes "storage_ok s"
    and "regex_native_set E cs var cdef (Some a) s = (rc, s')"
    and "CSR_RESULT rc = CSR_SUCCESS"
    and "map_of (heap s) a = Some R" and "pattern R = Some p"
  shows "\<exists>r C t. variable s' = Some r \<and> r \<noteq> a \<and> \<not> live (heap s) (Some r)
           \<and> map_of (heap s') r = Some C \<and> pattern C = Some p
           \<and> not C = (not R \<and> take 1 p = ''!'')
           \<and> regex C = Some t
           \<and> re_text t = (if not R \<and> take 1 p = ''!'' then drop 1 p else p)
           \<and> re_cflags t = (if mutt_mb_is_lower p then {REG_ICASE} else {})
           \<and> re_rc t = REGCOMP E (re_text t) (re_cflags t)
           \<and> pattern_at (fst (regex_free (heap s') (Some a))) (Some r) = Some p
           \<and> (variable s \<noteq> Some a \<longrightarrow>
                 map_of (heap s') a = Some R
                 \<and> map_of (heap (regex_destroy cs var cdef s')) a = Some R)"
proof -
  let ?r = "mutt_mem_calloc (heap s)"
  let ?fl = "if not R then {DT_REGEX_ALLOW_NOT} else {}"
  let ?C = "spec_regex E ?fl p"
  let ?t = "\<lparr>re_text = spec_remaining ?fl p, re_cflags = spec_cflags ?fl p,
             re_rc = REGCOMP E (spec_remaining ?fl p) (spec_cflags ?fl p)\<rparr>"
  note c = native_set_copy[OF assms(2-5)]
  note st = native_set_stored[OF assms]
  from native_set_success_args[OF assms(2,3)] have args: "cs" "var" "cdef" by simp_all
  have ra: "?r \<noteq> a" using assms(4) map_of_new[of "heap s"] by auto
  have v: "variable s' = Some ?r" using c by simp
  have p: "pattern ?C = Some p" by (simp add: spec_regex_def)
  have n: "not ?C = (not R \<and> take 1 p = ''!'')"
    by (simp add: spec_regex_def spec_negated_def)
  have t: "regex ?C = Some ?t" by (simp add: spec_regex_def)
  have tx: "re_text ?t = (if not R \<and> take 1 p = ''!'' then drop 1 p else p)"
    by (simp add: spec_remaining_def spec_negated_def)
  have cf: "re_cflags ?t = (if mutt_mb_is_lower p then {REG_ICASE} else {})"
    using native_copy_cflags[of "not R" p] by simp
  have rc: "re_rc ?t = REGCOMP E (re_text ?t) (re_cflags ?t)" by simp
  have free: "pattern_at (fst (regex_free (heap s') (Some a))) (Some ?r) = Some p"
    using ra st(1) p by (simp add: regex_free_def pattern_at_def map_of_delete_other)
  have keep: "map_of (heap s') a = Some R
                 \<and> map_of (heap (regex_destroy cs var cdef s')) a = Some R"
    if "variable s \<noteq> Some a"
    using st(2)[OF that] v ra args
    by (simp add: regex_destroy_def regex_free_def map_of_delete_other)
  show ?thesis
    apply (rule exI[of _ ?r], rule exI[of _ ?C], rule exI[of _ ?t])
    using v ra not_live_new[of "heap s"] st(1) p n t tx cf rc free keep
    by blast
qed

theorem native_set_deep_copy_witness:
  "storage_ok state4
   \<and> regex_native_set E0 True True True (Some 5) state4
       = (0, state4\<lparr>heap := [(6, \<lparr>pattern = Some ''!Abc'',
                    regex = Some \<lparr>re_text = ''Abc'', re_cflags = {}, re_rc = 0\<rparr>,
                    not = True\<rparr>),
                  (5, \<lparr>pattern = Some ''!Abc'',
                    regex = Some \<lparr>re_text = ''Abc'', re_cflags = {}, re_rc = 0\<rparr>,
                    not = True\<rparr>)],
                variable := Some 6, validated := [(Some 5, 0)]\<rparr>)
   \<and> CSR_RESULT 0 = CSR_SUCCESS
   \<and> (\<exists>r C t. variable (snd (regex_native_set E0 True True True (Some 5) state4)) = Some r
          \<and> r \<noteq> 5
          \<and> map_of (heap (snd (regex_native_set E0 True True True (Some 5) state4))) r = Some C
          \<and> pattern C = Some ''!Abc'' \<and> not C \<and> regex C = Some t
          \<and> re_text t = ''Abc'' \<and> re_cflags t = {})"
proof -
  let ?R = "\<lparr>pattern = Some ''!Abc'',
             regex = Some \<lparr>re_text = ''Abc'', re_cflags = {}, re_rc = 0\<rparr>, not = True\<rparr>"
  let ?s' = "state4\<lparr>heap := [(6, ?R), (5, ?R)],
                variable := Some 6, validated := [(Some 5, 0)]\<rparr>"
  have ok: "storage_ok state4"
    by (simp add: storage_ok_def live_def state4_def)
  have e: "regex_native_set E0 True True True (Some 5) state4 = (0, ?s')"
    by (simp add: codec_eval csr_defs state4_def)
  have r: "CSR_RESULT 0 = CSR_SUCCESS"
    by (simp add: csr_defs)
  have o: "map_of (heap state4) 5 = Some ?R" "pattern ?R = Some ''!Abc''"
    by (simp_all add: state4_def)
  from native_set_deep_copy[OF ok e r o]
  have "\<exists>r C t. variable ?s' = Some r \<and> r \<noteq> 5 \<and> map_of (heap ?s') r = Some C
          \<and> pattern C = Some ''!Abc'' \<and> not C \<and> regex C = Some t
          \<and> re_text t = ''Abc'' \<and> re_cflags t = {}"
    by (auto simp: mutt_mb_is_lower_def isupper_def)
  with ok e r show ?thesis by simp
qed

section \<open>Quad toggle\<close>

lemmas quad_defs = MUTT_NO_def MUTT_YES_def MUTT_ASKNO_def MUTT_ASKYES_def

lemma quad_in_range_cases:
  "quad_in_range v \<longleftrightarrow> v = MUTT_NO \<or> v = MUTT_YES \<or> v = MUTT_ASKNO \<or> v = MUTT_ASKYES"
  unfolding quad_in_range_def quad_defs by arith

lemma quad_he_toggle_in_range:
  assumes "quad_in_range (quad_var q)"
  shows "quad_he_toggle True True True q =
           (CSR_SUCCESS,
            q\<lparr>quad_var := (if quad_var q = MUTT_NO then MUTT_YES
                            else if quad_var q = MUTT_YES then MUTT_NO
                            else if quad_var q = MUTT_ASKNO then MUTT_ASKYES
                            else MUTT_ASKNO)\<rparr>)"
  using assms unfolding quad_in_range_cases
  by (auto simp: quad_he_toggle_def quad_toggle_def quad_toggle_table_def quad_defs)

lemma toggle_step_range:
  assumes "quad_in_range (quad_var q)"
  shows "quad_in_range (quad_var (snd (quad_he_toggle True True True q)))"
    and "quad_var (snd (quad_he_toggle True True True q)) \<in> {MUTT_NO, MUTT_YES}
           \<longleftrightarrow> quad_var q \<in> {MUTT_NO, MUTT_YES}"
  using assms quad_he_toggle_in_range[OF assms] unfolding quad_in_range_cases
  by (auto simp: quad_defs)

lemma toggles_pairing:
  "quad_in_range (quad_var q) \<Longrightarrow>
     quad_in_range (quad_var (toggles n q)) \<and>
     (quad_var (toggles n q) \<in> {MUTT_NO, MUTT_YES} \<longleftrightarrow> quad_var q \<in> {MUTT_NO, MUTT_YES})"
proof (induction n arbitrary: q)
  case 0
  then show ?case by simp
next
  case (Suc n)
  from toggle_step_range[OF Suc.prems] Suc.IH[of "snd (quad_he_toggle True True True q)"]
  show ?case by simp
qed

lemma toggle_twice:
  assumes "quad_in_range (quad_var q)"
  shows "toggles 2 q = q"
proof -
  let ?q1 = "snd (quad_he_toggle True True True q)"
  have r1: "quad_in_range (quad_var ?q1)" using toggle_step_range(1)[OF assms] .
  have "toggles 2 q = snd (quad_he_toggle True True True ?q1)"
    by (simp add: numeral_2_eq_2)
  also have "\<dots> = q"
    using assms unfolding quad_in_range_cases
    by (auto simp: quad_he_toggle_def quad_toggle_def quad_toggle_table_def quad_defs)
  finally show ?thesis .
qed

lemma toggles_add: "toggles (m + n) q = toggles n (toggles m q)"
  by (induction m arbitrary: q) simp_all

text \<open>
  C7: for every in-range quad value, toggle maps No to Yes, Yes to No, AskNo to AskYes
  and AskYes to AskNo; toggling twice, and so four times, gives the original state back;
  no number of toggles takes a value from the pair No/Yes to the pair AskNo/AskYes or
  back.
\<close>

theorem quad_toggle_closed_pairs:
  assumes "quad_in_range (quad_var q)"
  shows "quad_he_toggle True True True q =
           (CSR_SUCCESS,
            q\<lparr>quad_var := (if quad_var q = MUTT_NO then MUTT_YES
                            else if quad_var q = MUTT_YES then MUTT_NO
                            else if quad_var q = MUTT_ASKNO then MUTT_ASKYES
                            else MUTT_ASKNO)\<rparr>)
         \<and> toggles 2 q = q \<and> toggles 4 q = q
         \<and> (\<forall>n. (quad_var (toggles n q) \<in> {MUTT_NO, MUTT_YES}
                    \<longleftrightarrow> quad_var q \<in> {MUTT_NO, MUTT_YES})
                \<and> (quad_var (toggles n q) \<in> {MUTT_ASKNO, MUTT_ASKYES}
                    \<longleftrightarrow> quad_var q \<in> {MUTT_ASKNO, MUTT_ASKYES}))"
proof -
  have two: "toggles 2 q = q" by (rule toggle_twice[OF assms])
  have "toggles 4 q = toggles 2 (toggles 2 q)"
    using toggles_add[of 2 2 q] by simp
  then have four: "toggles 4 q = q" by (simp add: two)
  have pairs: "(quad_var (toggles n q) \<in> {MUTT_NO, MUTT_YES}
                    \<longleftrightarrow> quad_var q \<in> {MUTT_NO, MUTT_YES})
                \<and> (quad_var (toggles n q) \<in> {MUTT_ASKNO, MUTT_ASKYES}
                    \<longleftrightarrow> quad_var q \<in> {MUTT_ASKNO, MUTT_ASKYES})" for n
    using toggles_pairing[OF assms, of n] assms
    unfolding quad_in_range_cases by (auto simp: quad_defs)
  show ?thesis using quad_he_toggle_in_range[OF assms] two four pairs by blast
qed

theorem quad_toggle_closed_pairs_witness:
  "quad_in_range (quad_var \<lparr>quad_var = 2, quad_initial = 0, quad_validator = None\<rparr>)
   \<and> quad_he_toggle True True True \<lparr>quad_var = 2, quad_initial = 0, quad_validator = None\<rparr>
       = (0, \<lparr>quad_var = 3, quad_initial = 0, quad_validator = None\<rparr>)
   \<and> toggles 4 \<lparr>quad_var = 2, quad_initial = 0, quad_validator = None\<rparr>
       = \<lparr>quad_var = 2, quad_initial = 0, quad_validator = None\<rparr>"
proof -
  have h: "quad_in_range (quad_var \<lparr>quad_var = 2, quad_initial = 0, quad_validator = None\<rparr>)"
    by (simp add: quad_in_range_def quad_defs)
  show ?thesis using h quad_toggle_closed_pairs[OF h] by (simp add: quad_defs CSR_SUCCESS_def)
qed

section \<open>The empty text for a quad and for a regex\<close>

text \<open>
  C8, as the code has it: for a quad item, \<open>string_set\<close> with the empty text, or with
  any text that is not one of the four tokens, returns a failing result and leaves
  the item as it was. For a regex item with live storage whose stored pattern, if
  any, is not the empty text, \<open>regex_string_set\<close> with the empty text returns a
  Success\<cdot>Empty, sets the variable to \<open>NULL\<close> and releases the object it held, provided
  the item has no validator or its validator accepts the \<open>NULL\<close> candidate.
\<close>

theorem empty_text_quad_and_regex:
  "(NONULL val \<notin> fst ` set QuadValues \<longrightarrow>
      CSR_RESULT (fst (quad_string_set cs var cdef val q)) \<noteq> CSR_SUCCESS
      \<and> snd (quad_string_set cs var cdef val q) = q)
   \<and> NONULL (Some []) \<notin> fst ` set QuadValues
   \<and> (cs \<and> var \<and> cdef \<and> storage_ok s
        \<and> (variable s = None \<or> NONULL (pattern_at (heap s) (variable s)) \<noteq> [])
        \<and> regex_string_set E cs var cdef (Some []) s = (rc, s')
        \<and> (validator (def s) = None
             \<or> (\<exists>v. validator (def s) = Some v
                      \<and> CSR_RESULT (fst (v (heap s) None (err s))) = CSR_SUCCESS))
      \<longrightarrow> is_success_empty rc \<and> variable s' = None \<and> \<not> live (heap s') (variable s))"
  using quad_string_set_invalid[of val cs var cdef q] empty_not_quad
    string_set_empty_accepted[of cs var cdef s E rc s']
  by blast

theorem empty_text_quad_and_regex_witness:
  "NONULL (Some ''nope'') \<notin> fst ` set QuadValues
   \<and> quad_string_set True True True (Some ''nope'')
         \<lparr>quad_var = 0, quad_initial = 0, quad_validator = None\<rparr>
       = (CSR_ERR_INVALID, \<lparr>quad_var = 0, quad_initial = 0, quad_validator = None\<rparr>)
   \<and> quad_string_set True True True (Some [])
         \<lparr>quad_var = 0, quad_initial = 0, quad_validator = None\<rparr>
       = (CSR_ERR_INVALID, \<lparr>quad_var = 0, quad_initial = 0, quad_validator = None\<rparr>)
   \<and> storage_ok state1
   \<and> regex_string_set E0 True True True (Some []) state1
       = (32, state1\<lparr>heap := [], variable := None\<rparr>)
   \<and> is_success_empty 32
   \<and> CSR_RESULT (fst (quad_string_set True True True (Some ''nope'')
         \<lparr>quad_var = 0, quad_initial = 0, quad_validator = None\<rparr>)) \<noteq> CSR_SUCCESS"
proof -
  let ?q = "\<lparr>quad_var = 0, quad_initial = 0, quad_validator = None\<rparr>"
  let ?s' = "state1\<lparr>heap := [], variable := None\<rparr>"
  note t = empty_text_quad_and_regex[of "Some ''nope''" True True True ?q state1 E0 32 ?s']
  have n: "NONULL (Some ''nope'') \<notin> fst ` set QuadValues"
    by (simp add: NONULL_def QuadValues_def)
  have q1: "quad_string_set True True True (Some ''nope'') ?q = (CSR_ERR_INVALID, ?q)"
    by (simp add: quad_string_set_def NONULL_def QuadValues_def)
  have q2: "quad_string_set True True True (Some []) ?q = (CSR_ERR_INVALID, ?q)"
    by (simp add: quad_string_set_def NONULL_def QuadValues_def)
  have ok: "storage_ok state1"
    by (simp add: storage_ok_def live_def state1_def)
  have e: "regex_string_set E0 True True True (Some []) state1 = (32, ?s')"
    by (simp add: codec_eval csr_defs state1_def)
  have h: "True \<and> True \<and> True \<and> storage_ok state1
        \<and> (variable state1 = None \<or> NONULL (pattern_at (heap state1) (variable state1)) \<noteq> [])
        \<and> regex_string_set E0 True True True (Some []) state1 = (32, ?s')
        \<and> (validator (def state1) = None
             \<or> (\<exists>v. validator (def state1) = Some v
                      \<and> CSR_RESULT (fst (v (heap state1) None (err state1))) = CSR_SUCCESS))"
    using ok e by (simp add: state1_def pattern_at_def NONULL_def)
  from t[THEN conjunct2, THEN conjunct2, rule_format, OF h]
  have r: "is_success_empty 32" by simp
  from t[THEN conjunct1, rule_format, OF n]
  have "CSR_RESULT (fst (quad_string_set True True True (Some ''nope'') ?q)) \<noteq> CSR_SUCCESS"
    by simp
  with n q1 q2 ok e r show ?thesis by blast
qed

text \<open>
  The claim as stated has the empty text succeed for every regex item. On the item
  that holds \<open>ab\<close> and has the validator that always fails, the call returns
  \<open>CSR_ERR_INVALID | CSR_INV_VALIDATOR\<close> (35) and the pattern \<open>ab\<close> stays.
\<close>

theorem string_set_empty_vetoed:
  "regex_string_set E0 True True True (Some [])
       (state1\<lparr>def := (def state1)\<lparr>validator := Some validator_fail\<rparr>\<rparr>)
     = (35, state1\<lparr>def := (def state1)\<lparr>validator := Some validator_fail\<rparr>,
                   validated := [(None, 3)]\<rparr>)
   \<and> \<not> is_success_empty 35
   \<and> pattern_at (heap state1) (variable state1) = Some ''ab''"
  by (simp add: codec_eval csr_defs state1_def is_success_empty_def)

section \<open>The flags of the copy\<close>

text \<open>
  C9: \<open>regex_native_set\<close> does not read the type flags of the definition: changing them
  changes nothing in its result. On success the copy is what \<open>regex_create\<close> builds
  under the flags \<open>DT_REGEX_ALLOW_NOT\<close> or none, chosen by the source value's negation
  flag alone, so it is compiled case-insensitively whenever its text has no uppercase
  letter and never in the no-submatch mode. It can therefore differ from what
  \<open>regex_string_set\<close> stores for the same text under the same definition: with a
  definition that forces case sensitivity and asks for no-submatch, the text \<open>abc\<close> is
  stored with \<open>REG_NOSUB\<close> alone by \<open>regex_string_set\<close> and with \<open>REG_ICASE\<close> alone by
  \<open>regex_native_set\<close>.
\<close>

theorem native_set_flags:
  "(\<forall>ty. regex_native_set E cs var cdef val (s\<lparr>def := (def s)\<lparr>type := ty\<rparr>\<rparr>)
           = (fst (regex_native_set E cs var cdef val s),
              (snd (regex_native_set E cs var cdef val s))\<lparr>def := (def s)\<lparr>type := ty\<rparr>\<rparr>))
   \<and> (storage_ok s \<and> regex_native_set E cs var cdef (Some a) s = (rc, s')
        \<and> CSR_RESULT rc = CSR_SUCCESS \<and> map_of (heap s) a = Some R \<and> pattern R = Some p
      \<longrightarrow> (\<exists>r. variable s' = Some r
                \<and> map_of (heap s') r
                    = Some (spec_regex E (if not R then {DT_REGEX_ALLOW_NOT} else {}) p))
          \<and> stored_cflags s' = Some (if mutt_mb_is_lower p then {REG_ICASE} else {}))
   \<and> stored_cflags (snd (regex_string_set E0 True True True (Some ''abc'') state2))
         = Some {REG_NOSUB}
   \<and> stored_cflags (snd (regex_native_set E0 True True True (Some 5) state2))
         = Some {REG_ICASE}"
proof (intro conjI allI impI)
  fix ty
  show "regex_native_set E cs var cdef val (s\<lparr>def := (def s)\<lparr>type := ty\<rparr>\<rparr>)
           = (fst (regex_native_set E cs var cdef val s),
              (snd (regex_native_set E cs var cdef val s))\<lparr>def := (def s)\<lparr>type := ty\<rparr>\<rparr>)"
    by (rule native_set_type_independent)
next
  assume a: "storage_ok s \<and> regex_native_set E cs var cdef (Some a) s = (rc, s')
        \<and> CSR_RESULT rc = CSR_SUCCESS \<and> map_of (heap s) a = Some R \<and> pattern R = Some p"
  then have ok: "storage_ok s"
    and set: "regex_native_set E cs var cdef (Some a) s = (rc, s')"
    and suc: "CSR_RESULT rc = CSR_SUCCESS"
    and orig: "map_of (heap s) a = Some R" "pattern R = Some p"
    by blast+
  note c = native_set_copy[OF set suc orig]
  note st = native_set_stored(1)[OF ok set suc orig]
  from c st
  show "\<exists>r. variable s' = Some r
                \<and> map_of (heap s') r
                    = Some (spec_regex E (if not R then {DT_REGEX_ALLOW_NOT} else {}) p)"
    by blast
  from c st
  show "stored_cflags s' = Some (if mutt_mb_is_lower p then {REG_ICASE} else {})"
    by (simp add: stored_cflags_def spec_regex_def native_copy_cflags)
next
  show "stored_cflags (snd (regex_string_set E0 True True True (Some ''abc'') state2))
         = Some {REG_NOSUB}"
    by (simp add: stored_cflags_def codec_eval csr_defs state2_def)
next
  show "stored_cflags (snd (regex_native_set E0 True True True (Some 5) state2))
         = Some {REG_ICASE}"
    by (simp add: stored_cflags_def codec_eval csr_defs state2_def)
qed

theorem native_set_flags_witness:
  "storage_ok state2
   \<and> CSR_RESULT (fst (regex_native_set E0 True True True (Some 5) state2)) = CSR_SUCCESS
   \<and> stored_cflags (snd (regex_native_set E0 True True True (Some 5) state2))
       = Some {REG_ICASE}
   \<and> stored_cflags (snd (regex_native_set E0 True True True (Some 5)
         (state2\<lparr>def := (def state2)\<lparr>type := {}\<rparr>\<rparr>)))
       = Some {REG_ICASE}"
proof -
  let ?R = "\<lparr>pattern = Some ''abc'',
             regex = Some \<lparr>re_text = ''abc'', re_cflags = {}, re_rc = 0\<rparr>, not = False\<rparr>"
  obtain rc s' where e: "regex_native_set E0 True True True (Some 5) state2 = (rc, s')"
    by (cases "regex_native_set E0 True True True (Some 5) state2")
  have r: "CSR_RESULT rc = CSR_SUCCESS"
    using e by (auto simp: codec_eval csr_defs state2_def)
  have ok: "storage_ok state2"
    by (simp add: storage_ok_def state2_def)
  have h: "storage_ok state2 \<and> regex_native_set E0 True True True (Some 5) state2 = (rc, s')
        \<and> CSR_RESULT rc = CSR_SUCCESS \<and> map_of (heap state2) 5 = Some ?R
        \<and> pattern ?R = Some ''abc''"
    using ok e r by (simp add: state2_def)
  note t = native_set_flags[of E0 True True True "Some 5" state2 5 rc s' ?R "''abc''"]
  from t[THEN conjunct2, THEN conjunct1, rule_format, OF h]
  have c1: "stored_cflags s' = Some {REG_ICASE}"
    by (simp add: mutt_mb_is_lower_def isupper_def)
  from t[THEN conjunct1, rule_format, of "{}"] e c1
  have c2: "stored_cflags (snd (regex_native_set E0 True True True (Some 5)
         (state2\<lparr>def := (def state2)\<lparr>type := {}\<rparr>\<rparr>))) = Some {REG_ICASE}"
    by (simp add: stored_cflags_def_update)
  from ok e r c1 c2 show ?thesis by simp
qed

section \<open>The empty text on unset storage\<close>

text \<open>
  C10, as the code has it: for a regex item with live storage whose variable is
  \<open>NULL\<close>, \<open>regex_string_set\<close> with a \<open>NULL\<close> or empty text does not take the no-change
  path. Without a validator it returns \<open>CSR_SUCCESS | CSR_SUC_EMPTY\<close>. With a validator,
  the validator is called once, with the candidate \<open>NULL\<close>; when it accepts, the result
  is its code with \<open>CSR_SUC_EMPTY\<close>, a Success\<cdot>Empty; when it rejects, the result is its
  code with \<open>CSR_INV_VALIDATOR\<close>, a ValidatorRejected. The variable is \<open>NULL\<close> afterwards and
  the heap is unchanged in every case.
\<close>

theorem string_set_empty_on_unset:
  assumes "cs" "var" "cdef" "variable s = None" "value0 = None \<or> value0 = Some []"
    and "regex_string_set E cs var cdef value0 s = (rc, s')"
  shows "variable s' = None \<and> heap s' = heap s
         \<and> (validator (def s) = None \<longrightarrow>
               rc = CSR_SUCCESS OR CSR_SUC_EMPTY \<and> is_success_empty rc
               \<and> rc \<noteq> CSR_SUCCESS OR CSR_SUC_NO_CHANGE \<and> validated s' = validated s)
         \<and> (\<forall>v. validator (def s) = Some v \<longrightarrow>
               validated s' = validated s @ [(None, fst (v (heap s) None (err s)))]
               \<and> (CSR_RESULT (fst (v (heap s) None (err s))) = CSR_SUCCESS \<longrightarrow>
                     rc = fst (v (heap s) None (err s)) OR CSR_SUC_EMPTY \<and> is_success_empty rc)
               \<and> (CSR_RESULT (fst (v (heap s) None (err s))) \<noteq> CSR_SUCCESS \<longrightarrow>
                     rc = fst (v (heap s) None (err s)) OR CSR_INV_VALIDATOR
                     \<and> is_validator_rejected rc))"
proof (cases "validator (def s)")
  case None
  with assms(6) string_set_empty_unset[OF assms(1-5), of E]
  have "rc = CSR_SUCCESS OR CSR_SUC_EMPTY" and "s' = s" by simp_all
  moreover have "is_success_empty (CSR_SUCCESS OR CSR_SUC_EMPTY)"
    by (rule success_empty_code) simp
  moreover have "CSR_SUCCESS OR CSR_SUC_EMPTY \<noteq> CSR_SUCCESS OR CSR_SUC_NO_CHANGE"
    by (simp add: csr_defs)
  ultimately show ?thesis using None assms(4) by simp
next
  case (Some v)
  let ?vrc = "fst (v (heap s) None (err s))"
  from Some assms(6) string_set_empty_unset[OF assms(1-5), of E]
  have rc: "rc = (if CSR_RESULT ?vrc \<noteq> CSR_SUCCESS then ?vrc OR CSR_INV_VALIDATOR
                  else ?vrc OR CSR_SUC_EMPTY)"
    and s': "s' = s\<lparr>err := snd (v (heap s) None (err s)),
                     validated := validated s @ [(None, ?vrc)]\<rparr>"
    by simp_all
  show ?thesis
    using Some assms(4) rc s' success_empty_code[of ?vrc] rejected_code[of ?vrc]
    by auto
qed

theorem string_set_empty_on_unset_witness:
  "variable (state0 (Some validator_succeed)) = None
   \<and> regex_string_set E0 True True True (Some []) (state0 (Some validator_succeed))
       = (32, (state0 (Some validator_succeed))\<lparr>validated := [(None, 0)]\<rparr>)
   \<and> is_success_empty 32
   \<and> validated ((state0 (Some validator_succeed))\<lparr>validated := [(None, 0)]\<rparr>)
       = validated (state0 (Some validator_succeed)) @ [(None, 0)]"
proof -
  let ?s = "state0 (Some validator_succeed)"
  let ?s' = "?s\<lparr>validated := [(None, 0)]\<rparr>"
  have u: "variable ?s = None" by (simp add: state0_def)
  have e: "regex_string_set E0 True True True (Some []) ?s = (32, ?s')"
    by (simp add: codec_eval csr_defs)
  have v: "validator (def ?s) = Some validator_succeed" by (simp add: state0_def)
  have a: "fst (validator_succeed (heap ?s) None (err ?s)) = 0"
    by (simp add: validator_succeed_def CSR_SUCCESS_def)
  note t = string_set_empty_on_unset[OF TrueI TrueI TrueI u _ e, of ]
  have "Some [] = None \<or> Some [] = Some ([]::string)" by simp
  from t[OF this] v a
  have "validated ?s' = validated ?s @ [(None, 0)] \<and> is_success_empty 32"
    by (simp add: csr_defs)
  with u e show ?thesis by blast
qed

text \<open>
  The claim as stated has the call return Success\<cdot>Empty whenever the storage is unset.
  With the validator that always fails it returns \<open>CSR_ERR_INVALID | CSR_INV_VALIDATOR\<close>
  (35), which is not a success.
\<close>

theorem string_set_empty_rejected:
  "variable (state0 (Some validator_fail)) = None
   \<and> regex_string_set E0 True True True (Some []) (state0 (Some validator_fail))
       = (35, (state0 (Some validator_fail))
                \<lparr>err := Some \<lparr>data = ''validator_fail'', dsize = 256\<rparr>,
                 validated := [(None, 3)]\<rparr>)
   \<and> \<not> is_success_empty 35 \<and> is_validator_rejected 35"
  by (simp add: codec_eval csr_defs is_success_empty_def is_validator_rejected_def)

end
